theory Spec2Isabelle
  imports Complex_Main
begin

section \<open>Attendance statistics (src/lib/utils/stats.ts)\<close>

text \<open>
  The aggregation code of the attendance tracker: \<open>splitStayByDays\<close>,
  \<open>calculateStats\<close>, \<open>calculatePeriodStats\<close> and \<open>compareMembersStats\<close>, together
  with the date-fns functions they call.

  Modelling decisions.
  \<^item> The zone has a constant offset from UTC (no daylight-saving change), so every local
    day has 86400000 milliseconds and \<open>addDays\<close> adds that many per day.
  \<^item> The functions are given twice. First on valid dates of an unbounded time line: a
    \<open>Date\<close> is the number of milliseconds on the local time line (the value of
    \<open>getTime()\<close> shifted by the zone's offset), and \<open>format\<close> cannot fail. Then
    (names ending in \<open>E\<close>) with the \<open>Date\<close> of the runtime, which has a largest time
    value and an Invalid Date on which \<open>format\<close> raises \<open>RangeError\<close>. The two agree on
    valid dates that are not before 0001-01-01 and at least 24 hours before the largest
    \<open>Date\<close>.
  \<^item> The day key \<open>yyyy-MM-dd\<close> of a date is written as the number of its local day
    (days since 1970-01-01): from 0001-01-01 on, two dates have the same key exactly when
    they have the same day number, and \<open>parseISO\<close> of a key is the local midnight of
    that day.
  \<^item> Minutes are integers (\<open>differenceInMinutes\<close> returns integers, and the
    persistence layer stores \<open>Math.max(0, Math.round(...))\<close>); an absent \<open>duration\<close>
    is \<open>None\<close>. Averages are exact rationals.
  \<^item> A JavaScript \<open>Map\<close> is an association list with distinct keys in insertion order;
    a \<open>Set\<close> is a list without repetition.
  \<^item> The week and month key formats of date-fns are parameters of
    \<open>calculatePeriodStats\<close>: they are only used as grouping keys.
\<close>

subsection \<open>Maps and sets of the JavaScript runtime\<close>

fun map_set :: "('k \<times> 'v) list \<Rightarrow> 'k \<Rightarrow> 'v \<Rightarrow> ('k \<times> 'v) list" where
  "map_set [] k v = [(k, v)]"
| "map_set ((k', v') # m) k v =
     (if k' = k then (k, v) # m else (k', v') # map_set m k v)"

definition map_get :: "('k \<times> 'v) list \<Rightarrow> 'k \<Rightarrow> 'v option" where
  "map_get m k = map_of m k"

definition map_has :: "('k \<times> 'v) list \<Rightarrow> 'k \<Rightarrow> bool" where
  "map_has m k = (map_get m k \<noteq> None)"

text \<open>\<open>m.get(k) || 0\<close> on a map of numbers.\<close>

definition getOr0 :: "('k \<times> int) list \<Rightarrow> 'k \<Rightarrow> int" where
  "getOr0 m k = (case map_get m k of None \<Rightarrow> 0 | Some v \<Rightarrow> v)"

definition set_add :: "'a list \<Rightarrow> 'a \<Rightarrow> 'a list" where
  "set_add s x = (if x \<in> set s then s else s @ [x])"

subsection \<open>Records and statistics\<close>

datatype RecordType = In | Out | Other

record Record =
  rid :: string
  memberId :: string
  rtype :: RecordType
  timestamp :: int
  duration :: "int option"

record Stats =
  totalTime :: int
  averageTime :: rat
  daysPresent :: nat

record ('w, 'm) PeriodStats =
  daily :: "(int \<times> Stats) list"
  weekly :: "('w \<times> Stats) list"
  monthly :: "('m \<times> Stats) list"
  weekday :: Stats
  weekend :: Stats
  total :: Stats

text \<open>Truthiness of an optional number: \<open>undefined\<close> and \<open>0\<close> are falsy.\<close>

definition truthy :: "int option \<Rightarrow> bool" where
  "truthy d = (case d of None \<Rightarrow> False | Some n \<Rightarrow> n \<noteq> 0)"

text \<open>\<open>duration || 0\<close>.\<close>

definition orZero :: "int option \<Rightarrow> int" where
  "orZero d = (case d of None \<Rightarrow> 0 | Some n \<Rightarrow> n)"

subsection \<open>The date-fns functions\<close>

definition msPerDay :: int where
  "msPerDay = 86400000"

definition formatDateKey :: "int \<Rightarrow> int" where
  "formatDateKey date = date div msPerDay"

definition parseISO :: "int \<Rightarrow> int" where
  "parseISO dateKey = dateKey * msPerDay"

definition startOfDay :: "int \<Rightarrow> int" where
  "startOfDay date = (date div msPerDay) * msPerDay"

text \<open>\<open>endOfDay\<close> sets the time to 23:59:59.999.\<close>

definition endOfDay :: "int \<Rightarrow> int" where
  "endOfDay date = (date div msPerDay) * msPerDay + 86399999"

definition addDays :: "int \<Rightarrow> int \<Rightarrow> int" where
  "addDays date amount = date + amount * msPerDay"

definition isBefore :: "int \<Rightarrow> int \<Rightarrow> bool" where
  "isBefore date dateToCompare = (date < dateToCompare)"

text \<open>\<open>differenceInMinutes\<close> divides the difference in milliseconds by 60000 and
  truncates towards zero.\<close>

definition differenceInMinutes :: "int \<Rightarrow> int \<Rightarrow> int" where
  "differenceInMinutes dateLeft dateRight =
     (if dateRight \<le> dateLeft then (dateLeft - dateRight) div 60000
      else - ((dateRight - dateLeft) div 60000))"

text \<open>\<open>isWeekend\<close>: \<open>getDay()\<close> is 0 (Sunday) or 6 (Saturday); 1970-01-01 was a
  Thursday (4).\<close>

definition getDay :: "int \<Rightarrow> int" where
  "getDay date = (date div msPerDay + 4) mod 7"

definition isWeekend :: "int \<Rightarrow> bool" where
  "isWeekend date = (getDay date = 0 \<or> getDay date = 6)"

text \<open>\<open>Math.round\<close> of a number of milliseconds divided by 60000, as in \<open>addRecord\<close>
  of the persistence layer: halves round up.\<close>

definition roundMinutes :: "int \<Rightarrow> int" where
  "roundMinutes ms = (ms + 30000) div 60000"

subsection \<open>splitStayByDays\<close>

text \<open>The loop over the intermediate days (lines 55 to 58). It ends when the current
  day has the key of the check-out; \<open>None\<close> is a loop that never ends, which happens when
  the day of the check-out is before the day of the check-in.\<close>

partial_function (option) splitLoop ::
  "(int \<times> int) list \<Rightarrow> int \<Rightarrow> int \<Rightarrow> ((int \<times> int) list \<times> int) option" where
  [code]: "splitLoop result currentDay outTimestamp =
     (if formatDateKey currentDay \<noteq> formatDateKey outTimestamp
      then splitLoop (map_set result (formatDateKey currentDay) 1440)
             (addDays currentDay 1) outTimestamp
      else Some (result, currentDay))"

definition splitStayByDays :: "int \<Rightarrow> int \<Rightarrow> (int \<times> int) list option" where
  "splitStayByDays inTimestamp outTimestamp =
     (if formatDateKey inTimestamp = formatDateKey outTimestamp
      then Some (map_set [] (formatDateKey inTimestamp)
                   (differenceInMinutes outTimestamp inTimestamp))
      else
        let firstDayEnd = endOfDay inTimestamp;
            firstDayDuration = differenceInMinutes firstDayEnd inTimestamp;
            result = map_set [] (formatDateKey inTimestamp) firstDayDuration
        in case splitLoop result (addDays inTimestamp 1) outTimestamp of
             None \<Rightarrow> None
           | Some (result', currentDay) \<Rightarrow>
               if formatDateKey currentDay = formatDateKey outTimestamp
               then Some (map_set result' (formatDateKey currentDay)
                            (differenceInMinutes outTimestamp (startOfDay outTimestamp)))
               else Some result')"

subsection \<open>calculateStats\<close>

text \<open>The check-in matched to a check-out (lines 99 to 101): the first element of the
  check-ins strictly before it, sorted by descending timestamp (the sort is stable).\<close>

definition matchingInRecord :: "Record list \<Rightarrow> Record \<Rightarrow> Record option" where
  "matchingInRecord inRecords outRecord =
     (case sort_key (\<lambda>a. - timestamp a)
             (filter (\<lambda>inRecord. isBefore (timestamp inRecord) (timestamp outRecord))
                inRecords) of
        [] \<Rightarrow> None
      | m # _ \<Rightarrow> Some m)"

text \<open>\<open>dailySplits.forEach\<close>: add every split to the day's minutes.\<close>

definition accumulate :: "(int \<times> int) list \<Rightarrow> (int \<times> int) list \<Rightarrow> (int \<times> int) list" where
  "accumulate dailyMinutes dailySplits =
     fold (\<lambda>(day, minutes) dm. map_set dm day (getOr0 dm day + minutes))
       dailySplits dailyMinutes"

text \<open>The body of \<open>outRecords.forEach\<close> (lines 95 to 116); \<open>None\<close> when the loop of
  \<open>splitStayByDays\<close> does not end.\<close>

definition outStep ::
  "Record list \<Rightarrow> Record \<Rightarrow> (int \<times> int) list \<Rightarrow> (int \<times> int) list option" where
  "outStep inRecords outRecord dailyMinutes =
     (if \<not> truthy (duration outRecord) then Some dailyMinutes
      else case matchingInRecord inRecords outRecord of
             Some m \<Rightarrow>
               (case splitStayByDays (timestamp m) (timestamp outRecord) of
                  None \<Rightarrow> None
                | Some dailySplits \<Rightarrow> Some (accumulate dailyMinutes dailySplits))
           | None \<Rightarrow>
               let day = formatDateKey (timestamp outRecord)
               in Some (map_set dailyMinutes day
                          (getOr0 dailyMinutes day + orZero (duration outRecord))))"

fun forEachOut ::
  "Record list \<Rightarrow> Record list \<Rightarrow> (int \<times> int) list \<Rightarrow> (int \<times> int) list option" where
  "forEachOut inRecords [] dailyMinutes = Some dailyMinutes"
| "forEachOut inRecords (outRecord # rest) dailyMinutes =
     (case outStep inRecords outRecord dailyMinutes of
        None \<Rightarrow> None
      | Some dailyMinutes' \<Rightarrow> forEachOut inRecords rest dailyMinutes')"

text \<open>The day mapping of \<open>calculateStats\<close> for a non-empty record list: the records
  are sorted into check-ins and check-outs (a record of another type is dropped), then
  the check-outs are processed in order.\<close>

definition statsDailyMinutes :: "Record list \<Rightarrow> (int \<times> int) list option" where
  "statsDailyMinutes records =
     forEachOut (filter (\<lambda>record. rtype record = In) records)
       (filter (\<lambda>record. rtype record = Out) records) []"

text \<open>\<open>m.forEach(minutes => total += minutes)\<close>. The source also computes a longest
  stay, which it does not return.\<close>

definition sumMinutes :: "('k \<times> int) list \<Rightarrow> int" where
  "sumMinutes m = fold (\<lambda>(day, minutes) t. t + minutes) m 0"

definition mkStats :: "int \<Rightarrow> nat \<Rightarrow> Stats" where
  "mkStats t days =
     \<lparr>totalTime = t,
      averageTime = (if days > 0 then of_int t / of_nat days else 0),
      daysPresent = days\<rparr>"

definition calculateStats :: "Record list \<Rightarrow> Stats option" where
  "calculateStats records =
     (if length records = 0
      then Some \<lparr>totalTime = 0, averageTime = 0, daysPresent = 0\<rparr>
      else case statsDailyMinutes records of
             None \<Rightarrow> None
           | Some dailyMinutes \<Rightarrow>
               Some (mkStats (sumMinutes dailyMinutes) (length dailyMinutes)))"

subsection \<open>calculatePeriodStats\<close>

text \<open>The day mapping of \<open>calculatePeriodStats\<close>: the durations of the check-outs,
  by the day of the check-out.\<close>

definition periodDailyMinutes :: "Record list \<Rightarrow> (int \<times> int) list" where
  "periodDailyMinutes records =
     fold (\<lambda>record dm.
             if rtype record = Out \<and> truthy (duration record)
             then let day = formatDateKey (timestamp record)
                  in map_set dm day (getOr0 dm day + orZero (duration record))
             else dm)
       records []"

definition dailyStats :: "(int \<times> int) list \<Rightarrow> (int \<times> Stats) list" where
  "dailyStats dailyMinutes =
     fold (\<lambda>(dateKey, minutes) d.
             map_set d dateKey
               \<lparr>totalTime = minutes, averageTime = of_int minutes, daysPresent = 1\<rparr>)
       dailyMinutes []"

text \<open>The grouping loop, written twice in the source (weeks: lines 166 to 176, months:
  lines 191 to 201): the totals and the sets of days of every group key. The key of a
  valid date parses back to the same day, so the \<open>catch\<close> branches are not reached. The
  loop that follows it (lines 178 to 185, 203 to 210) builds one \<open>Stats\<close> per key.\<close>

definition groupDays ::
  "(int \<Rightarrow> 'k) \<Rightarrow> (int \<times> int) list \<Rightarrow> ('k \<times> int) list \<times> ('k \<times> int list) list" where
  "groupDays formatKey dailyMinutes =
     fold (\<lambda>(dateKey, minutes) (totals, days).
             let date = parseISO dateKey;
                 key = formatKey date;
                 totals' = map_set totals key (getOr0 totals key + minutes);
                 days' = (if \<not> map_has days key then map_set days key [] else days)
             in (totals',
                 case map_get days' key of
                   None \<Rightarrow> days'
                 | Some s \<Rightarrow> map_set days' key (set_add s dateKey)))
       dailyMinutes ([], [])"

definition groupStats ::
  "('k \<times> int) list \<times> ('k \<times> int list) list \<Rightarrow> ('k \<times> Stats) list" where
  "groupStats g =
     (case g of (totals, groupDaysMap) \<Rightarrow>
        fold (\<lambda>(key, t) stats.
                let days = (case map_get groupDaysMap key of
                              None \<Rightarrow> 0 | Some s \<Rightarrow> length s)
                in map_set stats key (mkStats t days))
          totals [])"

text \<open>The loop of lines 215 to 226 fills two maps, one with the days on a weekend and
  one with the other days; each is written here as a fold of its own.\<close>

definition weekendMinutes :: "(int \<times> int) list \<Rightarrow> (int \<times> int) list" where
  "weekendMinutes dailyMinutes =
     fold (\<lambda>(dateKey, minutes) m.
             if isWeekend (parseISO dateKey) then map_set m dateKey minutes else m)
       dailyMinutes []"

definition weekdayMinutes :: "(int \<times> int) list \<Rightarrow> (int \<times> int) list" where
  "weekdayMinutes dailyMinutes =
     fold (\<lambda>(dateKey, minutes) m.
             if isWeekend (parseISO dateKey) then m else map_set m dateKey minutes)
       dailyMinutes []"

definition calculatePeriodStats ::
  "(int \<Rightarrow> 'w) \<Rightarrow> (int \<Rightarrow> 'm) \<Rightarrow> Record list \<Rightarrow> int \<Rightarrow> int \<Rightarrow> ('w, 'm) PeriodStats" where
  "calculatePeriodStats formatWeekKey formatMonthKey records startDate endDate =
     (let dailyMinutes = periodDailyMinutes records;
          wd = weekdayMinutes dailyMinutes;
          we = weekendMinutes dailyMinutes
      in \<lparr>daily = dailyStats dailyMinutes,
          weekly = groupStats (groupDays formatWeekKey dailyMinutes),
          monthly = groupStats (groupDays formatMonthKey dailyMinutes),
          weekday = mkStats (sumMinutes wd) (length wd),
          weekend = mkStats (sumMinutes we) (length we),
          total = mkStats (sumMinutes dailyMinutes) (length dailyMinutes)\<rparr>)"

subsection \<open>compareMembersStats\<close>

definition compareMembersStats :: "(string \<times> Stats) list \<Rightarrow> (string \<times> int) list" where
  "compareMembersStats membersStats =
     sort_key (\<lambda>(name, t). - t)
       (map (\<lambda>(memberId, stats). (memberId, totalTime stats)) membersStats)"

subsection \<open>Invalid dates, the range of Date, and exceptions\<close>

text \<open>
  The definitions above compute on valid dates of an unbounded time line, where
  \<open>format\<close> cannot fail. The definitions of this subsection are the same code with the
  \<open>Date\<close> of the runtime; their names end in \<open>E\<close>.
  \<^item> A \<open>Date\<close> is a time value (milliseconds since the epoch, at most 8.64e15 in
    absolute value) or Invalid Date. \<open>off\<close> is the constant offset of the zone: the local
    time of the time value \<open>t\<close> is \<open>t + off\<close>.
  \<^item> \<open>format\<close> raises \<open>RangeError\<close> on an Invalid Date. A result \<open>Inl e\<close> is the
    exception \<open>e\<close>, raised and not caught; \<open>Inr v\<close> is the value returned.
  \<^item> \<open>addDays\<close>, \<open>endOfDay\<close> and \<open>startOfDay\<close> give Invalid Date when the result
    leaves the range of time values; \<open>isBefore\<close> is false when a date is invalid;
    \<open>differenceInMinutes\<close> of an Invalid Date is \<open>NaN\<close>.
  \<^item> A number is a rational or \<open>NaN\<close>.
\<close>

datatype error = RangeError

datatype JSDate = Valid int | InvalidDate

datatype number = Num rat | NaN

record JSRecord =
  js_id :: string
  js_memberId :: string
  js_type :: RecordType
  js_timestamp :: JSDate
  js_duration :: "int option"

record StatsE =
  totalTimeE :: number
  averageTimeE :: number
  daysPresentE :: nat

definition maxTime :: int where
  "maxTime = 8640000000000000"

definition timeClip :: "int \<Rightarrow> JSDate" where
  "timeClip t = (if - maxTime \<le> t \<and> t \<le> maxTime then Valid t else InvalidDate)"

definition formatDateKeyE :: "int \<Rightarrow> JSDate \<Rightarrow> error + int" where
  "formatDateKeyE off date =
     (case date of
        InvalidDate \<Rightarrow> Inl RangeError
      | Valid t \<Rightarrow> Inr (formatDateKey (t + off)))"

definition isBeforeE :: "JSDate \<Rightarrow> JSDate \<Rightarrow> bool" where
  "isBeforeE date dateToCompare =
     (case (date, dateToCompare) of
        (Valid a, Valid b) \<Rightarrow> a < b
      | _ \<Rightarrow> False)"

definition addDaysE :: "JSDate \<Rightarrow> int \<Rightarrow> JSDate" where
  "addDaysE date amount =
     (case date of
        InvalidDate \<Rightarrow> InvalidDate
      | Valid t \<Rightarrow> timeClip (t + amount * msPerDay))"

definition endOfDayE :: "int \<Rightarrow> JSDate \<Rightarrow> JSDate" where
  "endOfDayE off date =
     (case date of
        InvalidDate \<Rightarrow> InvalidDate
      | Valid t \<Rightarrow> timeClip (endOfDay (t + off) - off))"

definition startOfDayE :: "int \<Rightarrow> JSDate \<Rightarrow> JSDate" where
  "startOfDayE off date =
     (case date of
        InvalidDate \<Rightarrow> InvalidDate
      | Valid t \<Rightarrow> timeClip (startOfDay (t + off) - off))"

definition differenceInMinutesE :: "JSDate \<Rightarrow> JSDate \<Rightarrow> number" where
  "differenceInMinutesE dateLeft dateRight =
     (case (dateLeft, dateRight) of
        (Valid a, Valid b) \<Rightarrow> Num (of_int (differenceInMinutes a b))
      | _ \<Rightarrow> NaN)"

text \<open>Addition of numbers, and \<open>m.get(k) || 0\<close>: \<open>NaN\<close> is falsy.\<close>

definition numAdd :: "number \<Rightarrow> number \<Rightarrow> number" where
  "numAdd x y = (case (x, y) of (Num a, Num b) \<Rightarrow> Num (a + b) | _ \<Rightarrow> NaN)"

definition numGetOr0 :: "('k \<times> number) list \<Rightarrow> 'k \<Rightarrow> number" where
  "numGetOr0 m k = (case map_get m k of Some (Num v) \<Rightarrow> Num v | _ \<Rightarrow> Num 0)"

text \<open>The loop over the intermediate days (lines 55 to 58). With the range of \<open>Date\<close>
  it always ends: the current day becomes an Invalid Date after finitely many steps, and
  the loop condition then raises.\<close>

function splitLoopE ::
  "int \<Rightarrow> (int \<times> number) list \<Rightarrow> JSDate \<Rightarrow> JSDate \<Rightarrow>
   error + ((int \<times> number) list \<times> JSDate)" where
  "splitLoopE off result currentDay outTimestamp =
     (case formatDateKeyE off currentDay of
        Inl e \<Rightarrow> Inl e
      | Inr currentKey \<Rightarrow>
          (case formatDateKeyE off outTimestamp of
             Inl e \<Rightarrow> Inl e
           | Inr outKey \<Rightarrow>
               (if currentKey \<noteq> outKey
                then splitLoopE off (map_set result currentKey (Num 1440))
                       (addDaysE currentDay 1) outTimestamp
                else Inr (result, currentDay))))"
  by pat_completeness auto
termination
proof (relation "measure (\<lambda>(off, result, currentDay, outTimestamp).
    case currentDay of InvalidDate \<Rightarrow> 0 | Valid t \<Rightarrow> nat (maxTime - t) + 1)")
  show "wf (measure (\<lambda>(off, result, currentDay, outTimestamp).
    case currentDay of InvalidDate \<Rightarrow> 0 | Valid t \<Rightarrow> nat (maxTime - t) + 1))"
    by simp
next
  fix off :: int and result :: "(int \<times> number) list" and currentDay outTimestamp :: JSDate
    and currentKey outKey :: int
  assume "formatDateKeyE off currentDay = Inr currentKey"
  then obtain t where t: "currentDay = Valid t"
    by (cases currentDay) (simp_all add: formatDateKeyE_def)
  show "((off, map_set result currentKey (Num 1440), addDaysE currentDay 1, outTimestamp),
         (off, result, currentDay, outTimestamp))
        \<in> measure (\<lambda>(off, result, currentDay, outTimestamp).
             case currentDay of InvalidDate \<Rightarrow> 0 | Valid t \<Rightarrow> nat (maxTime - t) + 1)"
    by (simp add: t addDaysE_def timeClip_def msPerDay_def)
qed

declare splitLoopE.simps [simp del]

definition splitStayByDaysE ::
  "int \<Rightarrow> JSDate \<Rightarrow> JSDate \<Rightarrow> error + (int \<times> number) list" where
  "splitStayByDaysE off inTimestamp outTimestamp =
     (case formatDateKeyE off inTimestamp of
        Inl e \<Rightarrow> Inl e
      | Inr inKey \<Rightarrow>
          (case formatDateKeyE off outTimestamp of
             Inl e \<Rightarrow> Inl e
           | Inr outKey \<Rightarrow>
               if inKey = outKey
               then Inr (map_set [] inKey (differenceInMinutesE outTimestamp inTimestamp))
               else
                 let firstDayEnd = endOfDayE off inTimestamp;
                     firstDayDuration = differenceInMinutesE firstDayEnd inTimestamp;
                     result = map_set [] inKey firstDayDuration
                 in (case splitLoopE off result (addDaysE inTimestamp 1) outTimestamp of
                       Inl e \<Rightarrow> Inl e
                     | Inr (result', currentDay) \<Rightarrow>
                         (case formatDateKeyE off currentDay of
                            Inl e \<Rightarrow> Inl e
                          | Inr currentKey \<Rightarrow>
                              (if currentKey = outKey
                               then Inr (map_set result' currentKey
                                           (differenceInMinutesE outTimestamp
                                              (startOfDayE off outTimestamp)))
                               else Inr result')))))"

text \<open>The key of the descending sort (lines 99 to 101). The sort only sees records that
  passed the filter, whose dates are valid.\<close>

definition getTimeKey :: "JSRecord \<Rightarrow> int" where
  "getTimeKey a = (case js_timestamp a of Valid t \<Rightarrow> - t | InvalidDate \<Rightarrow> 0)"

definition matchingInRecordE :: "JSRecord list \<Rightarrow> JSRecord \<Rightarrow> JSRecord option" where
  "matchingInRecordE inRecords outRecord =
     (case sort_key getTimeKey
             (filter (\<lambda>inRecord. isBeforeE (js_timestamp inRecord) (js_timestamp outRecord))
                inRecords) of
        [] \<Rightarrow> None
      | m # _ \<Rightarrow> Some m)"

definition accumulateE ::
  "(int \<times> number) list \<Rightarrow> (int \<times> number) list \<Rightarrow> (int \<times> number) list" where
  "accumulateE dailyMinutes dailySplits =
     fold (\<lambda>(day, minutes) dm. map_set dm day (numAdd (numGetOr0 dm day) minutes))
       dailySplits dailyMinutes"

definition outStepE ::
  "int \<Rightarrow> JSRecord list \<Rightarrow> JSRecord \<Rightarrow> (int \<times> number) list \<Rightarrow>
   error + (int \<times> number) list" where
  "outStepE off inRecords outRecord dailyMinutes =
     (if \<not> truthy (js_duration outRecord) then Inr dailyMinutes
      else case matchingInRecordE inRecords outRecord of
             Some m \<Rightarrow>
               (case splitStayByDaysE off (js_timestamp m) (js_timestamp outRecord) of
                  Inl e \<Rightarrow> Inl e
                | Inr dailySplits \<Rightarrow> Inr (accumulateE dailyMinutes dailySplits))
           | None \<Rightarrow>
               (case formatDateKeyE off (js_timestamp outRecord) of
                  Inl e \<Rightarrow> Inl e
                | Inr day \<Rightarrow>
                    Inr (map_set dailyMinutes day
                           (numAdd (numGetOr0 dailyMinutes day)
                              (Num (of_int (orZero (js_duration outRecord))))))))"

fun forEachOutE ::
  "int \<Rightarrow> JSRecord list \<Rightarrow> JSRecord list \<Rightarrow> (int \<times> number) list \<Rightarrow>
   error + (int \<times> number) list" where
  "forEachOutE off inRecords [] dailyMinutes = Inr dailyMinutes"
| "forEachOutE off inRecords (outRecord # rest) dailyMinutes =
     (case outStepE off inRecords outRecord dailyMinutes of
        Inl e \<Rightarrow> Inl e
      | Inr dailyMinutes' \<Rightarrow> forEachOutE off inRecords rest dailyMinutes')"

definition statsDailyMinutesE :: "int \<Rightarrow> JSRecord list \<Rightarrow> error + (int \<times> number) list" where
  "statsDailyMinutesE off records =
     forEachOutE off (filter (\<lambda>record. js_type record = In) records)
       (filter (\<lambda>record. js_type record = Out) records) []"

definition sumMinutesE :: "('k \<times> number) list \<Rightarrow> number" where
  "sumMinutesE m = fold (\<lambda>(day, minutes) t. numAdd t minutes) m (Num 0)"

definition numDiv :: "number \<Rightarrow> nat \<Rightarrow> number" where
  "numDiv x n = (case x of Num a \<Rightarrow> Num (a / of_nat n) | NaN \<Rightarrow> NaN)"

definition mkStatsE :: "number \<Rightarrow> nat \<Rightarrow> StatsE" where
  "mkStatsE t days =
     \<lparr>totalTimeE = t,
      averageTimeE = (if days > 0 then numDiv t days else Num 0),
      daysPresentE = days\<rparr>"

definition calculateStatsE :: "int \<Rightarrow> JSRecord list \<Rightarrow> error + StatsE" where
  "calculateStatsE off records =
     (if length records = 0
      then Inr \<lparr>totalTimeE = Num 0, averageTimeE = Num 0, daysPresentE = 0\<rparr>
      else case statsDailyMinutesE off records of
             Inl e \<Rightarrow> Inl e
           | Inr dailyMinutes \<Rightarrow>
               Inr (mkStatsE (sumMinutesE dailyMinutes) (length dailyMinutes)))"

text \<open>The first loop of \<open>calculatePeriodStats\<close> (lines 141 to 148): \<open>formatDateKey\<close>
  stands outside every \<open>try\<close>. The loops that follow work on the day mapping alone.\<close>

fun periodLoopE ::
  "int \<Rightarrow> JSRecord list \<Rightarrow> (int \<times> int) list \<Rightarrow> error + (int \<times> int) list" where
  "periodLoopE off [] dailyMinutes = Inr dailyMinutes"
| "periodLoopE off (record # rest) dailyMinutes =
     (if js_type record = Out \<and> truthy (js_duration record)
      then case formatDateKeyE off (js_timestamp record) of
             Inl e \<Rightarrow> Inl e
           | Inr day \<Rightarrow>
               periodLoopE off rest
                 (map_set dailyMinutes day
                    (getOr0 dailyMinutes day + orZero (js_duration record)))
      else periodLoopE off rest dailyMinutes)"

definition calculatePeriodStatsE ::
  "int \<Rightarrow> (int \<Rightarrow> 'w) \<Rightarrow> (int \<Rightarrow> 'm) \<Rightarrow> JSRecord list \<Rightarrow> JSDate \<Rightarrow> JSDate \<Rightarrow>
   error + ('w, 'm) PeriodStats" where
  "calculatePeriodStatsE off formatWeekKey formatMonthKey records startDate endDate =
     (case periodLoopE off records [] of
        Inl e \<Rightarrow> Inl e
      | Inr dailyMinutes \<Rightarrow>
          let wd = weekdayMinutes dailyMinutes;
              we = weekendMinutes dailyMinutes
          in Inr \<lparr>daily = dailyStats dailyMinutes,
                  weekly = groupStats (groupDays formatWeekKey dailyMinutes),
                  monthly = groupStats (groupDays formatMonthKey dailyMinutes),
                  weekday = mkStats (sumMinutes wd) (length wd),
                  weekend = mkStats (sumMinutes we) (length we),
                  total = mkStats (sumMinutes dailyMinutes) (length dailyMinutes)\<rparr>)"

text \<open>The dates on which the two models are compared: valid, not before 0001-01-01 in
  local time (day \<open>firstDay\<close>; the key \<open>yyyy-MM-dd\<close> of an earlier year repeats the key
  of a later one), and at least 24 hours before the largest \<open>Date\<close>. On these a record of
  the runtime has a local record, a day mapping of integers its mapping of numbers, and
  a \<open>Stats\<close> value its value of numbers.\<close>

definition firstDay :: int where
  "firstDay = - 719162"

definition wellInside :: "int \<Rightarrow> JSDate \<Rightarrow> bool" where
  "wellInside off date =
     (case date of
        InvalidDate \<Rightarrow> False
      | Valid t \<Rightarrow>
          firstDay * msPerDay \<le> t + off \<and> - maxTime \<le> t \<and> t + msPerDay \<le> maxTime)"

definition localRecord :: "int \<Rightarrow> JSRecord \<Rightarrow> Record" where
  "localRecord off r =
     \<lparr>rid = js_id r, memberId = js_memberId r, rtype = js_type r,
      timestamp = (case js_timestamp r of Valid t \<Rightarrow> t + off | InvalidDate \<Rightarrow> 0),
      duration = js_duration r\<rparr>"

definition numMap :: "('k \<times> int) list \<Rightarrow> ('k \<times> number) list" where
  "numMap m = map (\<lambda>(k, v). (k, Num (of_int v))) m"

definition numStats :: "Stats \<Rightarrow> StatsE" where
  "numStats s =
     \<lparr>totalTimeE = Num (of_int (totalTime s)), averageTimeE = Num (averageTime s),
      daysPresentE = daysPresent s\<rparr>"

subsection \<open>The invariants as the specification words them\<close>

text \<open>The invariant of a \<open>Stats\<close> value: the average is the total divided by the days
  present, and 0 when no day is present.\<close>

definition averageConsistent :: "Stats \<Rightarrow> bool" where
  "averageConsistent s =
     (if daysPresent s > 0
      then averageTime s = of_int (totalTime s) / of_nat (daysPresent s)
      else averageTime s = 0)"

text \<open>The invariant of the day mapping, in the specification's words: a day's minutes
  are the sum, over the stay intervals (a check-out with the check-in matched to it), of
  the part of the interval inside the day's 24 hours, in whole minutes.\<close>

definition overlapMinutes :: "int \<Rightarrow> int \<Rightarrow> int \<Rightarrow> int" where
  "overlapMinutes checkIn checkOut day =
     max 0 (min checkOut ((day + 1) * msPerDay) - max checkIn (day * msPerDay)) div 60000"

definition stayIntervals :: "Record list \<Rightarrow> (int \<times> int) list" where
  "stayIntervals records =
     (let inRecords = filter (\<lambda>record. rtype record = In) records
      in concat (map (\<lambda>outRecord.
                        case matchingInRecord inRecords outRecord of
                          None \<Rightarrow> []
                        | Some m \<Rightarrow> [(timestamp m, timestamp outRecord)])
                   (filter (\<lambda>record. rtype record = Out) records)))"

definition clippedDailyMinutes :: "Record list \<Rightarrow> int \<Rightarrow> int" where
  "clippedDailyMinutes records day =
     sum_list (map (\<lambda>(checkIn, checkOut). overlapMinutes checkIn checkOut day)
                 (stayIntervals records))"

text \<open>The pairing of check-outs with check-ins, in the specification's words: the
  check-in matched to a check-out is the latest timestamp among the check-ins of the
  list that are strictly earlier than the check-out, chosen for each check-out from the
  whole list of records; no check-in is ever used up.\<close>

definition latestCheckInBefore :: "Record list \<Rightarrow> int \<Rightarrow> int option" where
  "latestCheckInBefore records t =
     (let earlier = map timestamp
                      (filter (\<lambda>r. rtype r = In \<and> timestamp r < t) records)
      in if earlier = [] then None else Some (Max (set earlier)))"

definition nearestPrecedingStep ::
  "Record list \<Rightarrow> Record \<Rightarrow> (int \<times> int) list \<Rightarrow> (int \<times> int) list option" where
  "nearestPrecedingStep records outRecord dm =
     (if \<not> truthy (duration outRecord) then Some dm
      else case latestCheckInBefore records (timestamp outRecord) of
             Some checkIn \<Rightarrow>
               map_option (accumulate dm) (splitStayByDays checkIn (timestamp outRecord))
           | None \<Rightarrow>
               Some (map_set dm (formatDateKey (timestamp outRecord))
                       (getOr0 dm (formatDateKey (timestamp outRecord))
                          + orZero (duration outRecord))))"

fun nearestPrecedingDaily ::
  "Record list \<Rightarrow> Record list \<Rightarrow> (int \<times> int) list \<Rightarrow> (int \<times> int) list option" where
  "nearestPrecedingDaily records [] dm = Some dm"
| "nearestPrecedingDaily records (outRecord # rest) dm =
     (case nearestPrecedingStep records outRecord dm of
        None \<Rightarrow> None
      | Some dm' \<Rightarrow> nearestPrecedingDaily records rest dm')"

section \<open>Auxiliary facts\<close>

subsection \<open>Maps\<close>

lemma map_of_map_set: "map_of (map_set m k v) = (map_of m)(k \<mapsto> v)"
  by (induction m) (auto simp: fun_eq_iff)

lemma keys_map_set: "fst ` set (map_set m k v) = insert k (fst ` set m)"
proof -
  have "dom (map_of (map_set m k v)) = insert k (dom (map_of m))"
    by (simp add: map_of_map_set)
  then show ?thesis by (simp add: dom_map_of_conv_image_fst)
qed

lemma map_set_fresh: "k \<notin> fst ` set m \<Longrightarrow> map_set m k v = m @ [(k, v)]"
  by (induction m) auto

lemma distinct_map_set: "distinct (map fst m) \<Longrightarrow> distinct (map fst (map_set m k v))"
proof (induction m)
  case Nil
  then show ?case by simp
next
  case (Cons p m)
  obtain k' v' where p: "p = (k', v')" by (cases p)
  from Cons show ?case
    by (auto simp: p keys_map_set image_iff)
qed

lemma getOr0_map_set: "getOr0 (map_set m k v) k' = (if k' = k then v else getOr0 m k')"
  by (simp add: getOr0_def map_get_def map_of_map_set)

lemma getOr0_Nil: "getOr0 [] k = 0"
  by (simp add: getOr0_def map_get_def)

lemma fold_add_acc: "fold (\<lambda>(day, minutes) t. t + minutes) m (t0::int) = t0 + sum_list (map snd m)"
  by (induction m arbitrary: t0) (auto)

lemma sumMinutes_sum_list: "sumMinutes m = sum_list (map snd m)"
  by (simp add: sumMinutes_def fold_add_acc)

lemma fold_map_set_const:
  "distinct ds \<Longrightarrow> set ds \<inter> fst ` set res = {} \<Longrightarrow>
   fold (\<lambda>d m. map_set m d c) ds res = res @ map (\<lambda>d. (d, c)) ds"
proof (induction ds arbitrary: res)
  case Nil
  then show ?case by simp
next
  case (Cons d ds)
  have fresh: "d \<notin> fst ` set res" using Cons.prems by auto
  have "set ds \<inter> fst ` set (map_set res d c) = {}"
    using Cons.prems by (auto simp: keys_map_set)
  with Cons have "fold (\<lambda>d m. map_set m d c) ds (map_set res d c)
      = map_set res d c @ map (\<lambda>d. (d, c)) ds" by simp
  then show ?case by (simp add: map_set_fresh [OF fresh])
qed

lemma set_map_set_subset: "set (map_set m k v) \<subseteq> insert (k, v) (set m)"
  by (induction m) (auto split: if_splits)

lemma all_values_map_set:
  "\<forall>s \<in> snd ` set m. P s \<Longrightarrow> P v \<Longrightarrow> \<forall>s \<in> snd ` set (map_set m k v). P s"
  using set_map_set_subset [of m k v] by fastforce

lemma fold_select:
  "distinct (map fst dm) \<Longrightarrow> fst ` set acc \<inter> fst ` set dm = {} \<Longrightarrow>
   fold (\<lambda>(k, v) m. if P k then map_set m k v else m) dm acc
     = acc @ filter (\<lambda>(k, v). P k) dm"
proof (induction dm arbitrary: acc)
  case Nil
  then show ?case by simp
next
  case (Cons p dm)
  obtain k v where p: "p = (k, v)" by (cases p)
  have fresh: "k \<notin> fst ` set acc" using Cons.prems(2) by (auto simp: p)
  have d: "distinct (map fst dm)" and kd: "k \<notin> fst ` set dm"
    using Cons.prems(1) by (simp_all add: p)
  show ?case
  proof (cases "P k")
    case True
    have "fst ` set (map_set acc k v) \<inter> fst ` set dm = {}"
      using Cons.prems(2) kd by (auto simp: keys_map_set p)
    from Cons.IH [OF d this] True show ?thesis
      by (simp add: p map_set_fresh [OF fresh])
  next
    case False
    have "fst ` set acc \<inter> fst ` set dm = {}" using Cons.prems(2) by auto
    from Cons.IH [OF d this] False show ?thesis by (simp add: p)
  qed
qed

subsection \<open>Dates\<close>

lemmas date_defs = formatDateKey_def msPerDay_def endOfDay_def startOfDay_def addDays_def
  differenceInMinutes_def isBefore_def parseISO_def

lemma key_addDays: "formatDateKey (addDays t n) = formatDateKey t + n"
  by (simp add: formatDateKey_def addDays_def msPerDay_def)

lemma addDays_addDays: "addDays (addDays t m) n = addDays t (m + n)"
  by (simp add: addDays_def algebra_simps)

lemma key_mono: "a \<le> b \<Longrightarrow> formatDateKey a \<le> formatDateKey b"
  by (simp add: formatDateKey_def msPerDay_def zdiv_mono1)

lemma key_of_day: "0 \<le> t \<Longrightarrow> t < 86400000 \<Longrightarrow> formatDateKey (D * msPerDay + t) = D"
  by (simp add: formatDateKey_def msPerDay_def)

lemma diff_first:
  "differenceInMinutes (endOfDay t) t = (86399999 - (t mod msPerDay)) div 60000"
proof -
  have "t = (t div msPerDay) * msPerDay + t mod msPerDay" by simp
  then have e: "endOfDay t - t = 86399999 - t mod msPerDay"
    unfolding endOfDay_def by linarith
  have "t mod msPerDay < msPerDay" by (simp add: msPerDay_def)
  then have "t \<le> endOfDay t" using e by (simp add: msPerDay_def)
  then show ?thesis by (simp add: differenceInMinutes_def e)
qed

lemma diff_last:
  "differenceInMinutes t (startOfDay t) = (t mod msPerDay) div 60000"
proof -
  have "t = (t div msPerDay) * msPerDay + t mod msPerDay" by simp
  then have e: "t - startOfDay t = t mod msPerDay"
    unfolding startOfDay_def by linarith
  have "0 \<le> t mod msPerDay" by (simp add: msPerDay_def)
  then have "startOfDay t \<le> t" using e by simp
  then show ?thesis by (simp add: differenceInMinutes_def e)
qed

subsection \<open>The loop of splitStayByDays\<close>

lemma splitLoop_closed:
  "formatDateKey currentDay \<le> formatDateKey outTimestamp \<Longrightarrow>
   splitLoop result currentDay outTimestamp =
     Some (fold (\<lambda>d m. map_set m d 1440)
             [formatDateKey currentDay..formatDateKey outTimestamp - 1] result,
           addDays currentDay (formatDateKey outTimestamp - formatDateKey currentDay))"
proof (induction "nat (formatDateKey outTimestamp - formatDateKey currentDay)"
    arbitrary: result currentDay)
  case 0
  then have eq: "formatDateKey currentDay = formatDateKey outTimestamp" by simp
  show ?case
    by (subst splitLoop.simps) (simp add: eq addDays_def)
next
  case (Suc n)
  then have lt: "formatDateKey currentDay < formatDateKey outTimestamp" by simp
  have n: "n = nat (formatDateKey outTimestamp - formatDateKey (addDays currentDay 1))"
    using Suc.hyps(2) by (simp add: key_addDays)
  have le: "formatDateKey (addDays currentDay 1) \<le> formatDateKey outTimestamp"
    using lt by (simp add: key_addDays)
  note IH = Suc.hyps(1) [OF n le]
  have up: "[formatDateKey currentDay..formatDateKey outTimestamp - 1]
      = formatDateKey currentDay # [formatDateKey currentDay + 1..formatDateKey outTimestamp - 1]"
    using lt by (simp add: upto_rec1)
  show ?case
    using lt
    by (subst splitLoop.simps) (simp add: IH up key_addDays addDays_addDays)
qed

lemma splitStayByDays_multi:
  assumes lt: "inTimestamp < outTimestamp"
    and ne: "formatDateKey inTimestamp \<noteq> formatDateKey outTimestamp"
  shows "splitStayByDays inTimestamp outTimestamp =
    Some ((formatDateKey inTimestamp, differenceInMinutes (endOfDay inTimestamp) inTimestamp)
          # map (\<lambda>d. (d, 1440)) [formatDateKey inTimestamp + 1..formatDateKey outTimestamp - 1]
          @ [(formatDateKey outTimestamp,
              differenceInMinutes outTimestamp (startOfDay outTimestamp))])"
proof -
  let ?ki = "formatDateKey inTimestamp" and ?ko = "formatDateKey outTimestamp"
  let ?first = "differenceInMinutes (endOfDay inTimestamp) inTimestamp"
  have klt: "?ki < ?ko" using key_mono [of inTimestamp outTimestamp] lt ne by simp
  then have le: "formatDateKey (addDays inTimestamp 1) \<le> ?ko"
    by (simp add: key_addDays)
  have mid: "fold (\<lambda>d m. map_set m d 1440) [?ki + 1..?ko - 1] [(?ki, ?first)]
      = [(?ki, ?first)] @ map (\<lambda>d. (d, 1440)) [?ki + 1..?ko - 1]"
    by (rule fold_map_set_const) auto
  have fresh: "?ko \<notin> fst ` set (map (\<lambda>d. (d, 1440::int)) [?ki + 1..?ko - 1])"
    by (auto simp: image_iff)
  show ?thesis
    using ne
    by (simp add: splitStayByDays_def Let_def splitLoop_closed [OF le] key_addDays mid
        map_set_fresh [OF fresh])
qed

lemma splitStayByDays_same:
  "formatDateKey inTimestamp = formatDateKey outTimestamp \<Longrightarrow>
   splitStayByDays inTimestamp outTimestamp =
     Some [(formatDateKey inTimestamp, differenceInMinutes outTimestamp inTimestamp)]"
  by (simp add: splitStayByDays_def)

lemma splitStayByDays_Some:
  assumes "inTimestamp < outTimestamp"
  shows "\<exists>m. splitStayByDays inTimestamp outTimestamp = Some m"
proof (cases "formatDateKey inTimestamp = formatDateKey outTimestamp")
  case True
  then show ?thesis by (simp add: splitStayByDays_same)
next
  case False
  then show ?thesis by (simp add: splitStayByDays_multi [OF assms])
qed

lemma splitLoop_Some_le:
  assumes "splitLoop result currentDay outTimestamp = Some y"
  shows "formatDateKey currentDay \<le> formatDateKey outTimestamp"
proof (rule splitLoop.raw_induct
    [where P = "\<lambda>r c out y. formatDateKey c \<le> formatDateKey out", OF _ assms])
  fix f :: "(int \<times> int) list \<Rightarrow> int \<Rightarrow> int \<Rightarrow> ((int \<times> int) list \<times> int) option"
    and r :: "(int \<times> int) list" and c out :: int and y :: "(int \<times> int) list \<times> int"
  assume IH: "\<And>r c out y. f r c out = Some y \<Longrightarrow> formatDateKey c \<le> formatDateKey out"
    and step: "(if formatDateKey c \<noteq> formatDateKey out
        then f (map_set r (formatDateKey c) 1440) (addDays c 1) out
        else Some (r, c)) = Some y"
  show "formatDateKey c \<le> formatDateKey out"
  proof (cases "formatDateKey c = formatDateKey out")
    case True
    then show ?thesis by simp
  next
    case False
    with step have "f (map_set r (formatDateKey c) 1440) (addDays c 1) out = Some y"
      by simp
    from IH [OF this] show ?thesis by (simp add: key_addDays)
  qed
qed

lemma splitStayByDays_diverges:
  "formatDateKey outTimestamp < formatDateKey inTimestamp \<Longrightarrow>
   splitStayByDays inTimestamp outTimestamp = None"
proof -
  assume lt: "formatDateKey outTimestamp < formatDateKey inTimestamp"
  have "splitLoop r (addDays inTimestamp 1) outTimestamp = None" for r
  proof (cases "splitLoop r (addDays inTimestamp 1) outTimestamp")
    case None
    then show ?thesis .
  next
    case (Some y)
    from splitLoop_Some_le [OF Some] lt show ?thesis by (simp add: key_addDays)
  qed
  with lt show ?thesis by (simp add: splitStayByDays_def)
qed

lemma sum_const_map: "sum_list (map (snd \<circ> (\<lambda>d. (d, c::int))) ds) = c * int (length ds)"
  by (induction ds) (auto simp: algebra_simps)

lemma sum_multi:
  assumes lt: "inTimestamp < outTimestamp"
    and ne: "formatDateKey inTimestamp \<noteq> formatDateKey outTimestamp"
  shows "\<exists>m. splitStayByDays inTimestamp outTimestamp = Some m \<and>
     sumMinutes m = (86399999 - inTimestamp mod msPerDay) div 60000
        + 1440 * (formatDateKey outTimestamp - formatDateKey inTimestamp - 1)
        + (outTimestamp mod msPerDay) div 60000"
proof -
  have klt: "formatDateKey inTimestamp < formatDateKey outTimestamp"
    using key_mono [of inTimestamp outTimestamp] lt ne by simp
  then have len: "int (length [formatDateKey inTimestamp + 1..formatDateKey outTimestamp - 1])
      = formatDateKey outTimestamp - formatDateKey inTimestamp - 1"
    by simp
  show ?thesis
    unfolding splitStayByDays_multi [OF lt ne]
    by (simp add: sumMinutes_sum_list sum_const_map len diff_first diff_last del: length_upto)
qed

lemma round_bounds:
  fixes a b k :: int
  assumes a: "0 \<le> a" "a < 86400000" and b: "0 \<le> b" "b < 86400000"
  shows "(86399999 - a) div 60000 + 1440 * (k - 1) + b div 60000
           \<le> (k * 86400000 + b - a + 30000) div 60000"
    and "(k * 86400000 + b - a + 30000) div 60000
           \<le> (86399999 - a) div 60000 + 1440 * (k - 1) + b div 60000 + 2"
proof -
  define qa ra qb rb where "qa = a div 60000" and "ra = a mod 60000"
    and "qb = b div 60000" and "rb = b mod 60000"
  have a_eq: "a = 60000 * qa + ra" and b_eq: "b = 60000 * qb + rb"
    by (simp_all add: qa_def ra_def qb_def rb_def)
  have ra: "0 \<le> ra" "ra < 60000" and rb: "0 \<le> rb" "rb < 60000"
    by (simp_all add: ra_def rb_def)
  define c where "c = (rb - ra + 30000) div 60000"
  have "(- 60000) div 60000 \<le> c" unfolding c_def
    by (rule zdiv_mono1) (use ra rb in simp_all)
  then have c1: "- 1 \<le> c" by simp
  have "c \<le> 119999 div 60000" unfolding c_def
    by (rule zdiv_mono1) (use ra rb in simp_all)
  then have c2: "c \<le> 1" by simp
  have first: "(86399999 - a) div 60000 = 1439 - qa"
    by (rule int_div_pos_eq [where r = "59999 - ra"]) (use ra a_eq in simp_all)
  have "k * 86400000 + b - a + 30000 = (rb - ra + 30000) + (1440 * k + qb - qa) * 60000"
    using a_eq b_eq by simp
  then have r: "(k * 86400000 + b - a + 30000) div 60000 = 1440 * k + qb - qa + c"
    unfolding c_def by (simp only: div_mult_self1)
  show "(86399999 - a) div 60000 + 1440 * (k - 1) + b div 60000
           \<le> (k * 86400000 + b - a + 30000) div 60000"
    unfolding r first qb_def [symmetric] using c1 by simp
  show "(k * 86400000 + b - a + 30000) div 60000
           \<le> (86399999 - a) div 60000 + 1440 * (k - 1) + b div 60000 + 2"
    unfolding r first qb_def [symmetric] using c2 by simp
qed

lemma trunc_round_bounds:
  fixes d :: int
  shows "d div 60000 \<le> (d + 30000) div 60000"
    and "(d + 30000) div 60000 \<le> d div 60000 + 1"
proof -
  show "d div 60000 \<le> (d + 30000) div 60000"
    by (rule zdiv_mono1) simp_all
  have "(d + 30000) div 60000 \<le> (d + 60000) div 60000"
    by (rule zdiv_mono1) simp_all
  then show "(d + 30000) div 60000 \<le> d div 60000 + 1" by simp
qed

subsection \<open>Matching and the loop over the check-outs\<close>

lemma matchingInRecord_None:
  "matchingInRecord inRecords outRecord = None \<longleftrightarrow>
     (\<forall>r \<in> set inRecords. \<not> timestamp r < timestamp outRecord)"
proof -
  let ?c = "filter (\<lambda>inRecord. isBefore (timestamp inRecord) (timestamp outRecord)) inRecords"
  have "matchingInRecord inRecords outRecord = None \<longleftrightarrow> sort_key (\<lambda>a. - timestamp a) ?c = []"
    unfolding matchingInRecord_def by (simp split: list.splits)
  also have "\<dots> \<longleftrightarrow> set (sort_key (\<lambda>a. - timestamp a) ?c) = {}"
    by (simp only: set_empty)
  also have "\<dots> \<longleftrightarrow> (\<forall>r \<in> set inRecords. \<not> timestamp r < timestamp outRecord)"
    by (auto simp: isBefore_def filter_empty_conv)
  finally show ?thesis .
qed

lemma matchingInRecord_Some:
  assumes "matchingInRecord inRecords outRecord = Some m"
  shows "m \<in> set inRecords" and "timestamp m < timestamp outRecord"
    and "\<And>r. r \<in> set inRecords \<Longrightarrow> timestamp r < timestamp outRecord \<Longrightarrow>
           timestamp r \<le> timestamp m"
proof -
  let ?c = "filter (\<lambda>inRecord. isBefore (timestamp inRecord) (timestamp outRecord)) inRecords"
  let ?s = "sort_key (\<lambda>a. - timestamp a) ?c"
  from assms obtain rest where s: "?s = m # rest"
    by (auto simp: matchingInRecord_def split: list.splits)
  have "set ?s = set ?c" by simp
  with s have mem: "m \<in> set ?c" and sub: "set ?c = insert m (set rest)" by auto
  from mem show "m \<in> set inRecords" and "timestamp m < timestamp outRecord"
    by (simp_all add: isBefore_def)
  have "sorted (map (\<lambda>a. - timestamp a) ?s)" by (rule sorted_sort_key)
  with s have le: "\<forall>r \<in> set rest. timestamp r \<le> timestamp m" by simp
  fix r assume "r \<in> set inRecords" "timestamp r < timestamp outRecord"
  then have "r \<in> set ?c" by (simp add: isBefore_def)
  with sub le show "timestamp r \<le> timestamp m" by auto
qed

lemma outStep_Some: "\<exists>dm'. outStep inRecords outRecord dailyMinutes = Some dm'"
proof (cases "matchingInRecord inRecords outRecord")
  case None
  then show ?thesis by (simp add: outStep_def Let_def)
next
  case (Some m)
  from matchingInRecord_Some(2) [OF Some] splitStayByDays_Some
  obtain s where "splitStayByDays (timestamp m) (timestamp outRecord) = Some s" by blast
  with Some show ?thesis by (simp add: outStep_def)
qed

lemma forEachOut_Some: "\<exists>dm'. forEachOut inRecords outRecords dailyMinutes = Some dm'"
proof (induction outRecords arbitrary: dailyMinutes)
  case Nil
  then show ?case by simp
next
  case (Cons outRecord rest)
  obtain dm' where "outStep inRecords outRecord dailyMinutes = Some dm'"
    using outStep_Some by blast
  with Cons.IH [of dm'] show ?case by simp
qed

lemma statsDailyMinutes_Some: "\<exists>dm. statsDailyMinutes records = Some dm"
  unfolding statsDailyMinutes_def by (rule forEachOut_Some)

lemma calculateStats_Some: "\<exists>s. calculateStats records = Some s"
proof -
  obtain dm where "statsDailyMinutes records = Some dm"
    using statsDailyMinutes_Some by blast
  then show ?thesis by (simp add: calculateStats_def)
qed

lemma forEachOut_skip:
  "forEachOut inRecords (filter (\<lambda>r. duration r \<noteq> None) outRecords) dm
     = forEachOut inRecords outRecords dm"
proof (induction outRecords arbitrary: dm)
  case Nil
  then show ?case by simp
next
  case (Cons outRecord rest)
  show ?case
  proof (cases "duration outRecord")
    case None
    then have "outStep inRecords outRecord dm = Some dm"
      by (simp add: outStep_def truthy_def)
    with None Cons.IH show ?thesis by simp
  next
    case (Some d)
    with Cons.IH show ?thesis by (simp split: option.splits)
  qed
qed

lemma statsDailyMinutes_skip:
  "statsDailyMinutes (filter (\<lambda>r. \<not> (rtype r = Out \<and> duration r = None)) records)
     = statsDailyMinutes records"
proof -
  have i: "filter (\<lambda>r. rtype r = In) (filter (\<lambda>r. \<not> (rtype r = Out \<and> duration r = None)) records)
      = filter (\<lambda>r. rtype r = In) records"
    by (induction records) auto
  have o: "filter (\<lambda>r. rtype r = Out) (filter (\<lambda>r. \<not> (rtype r = Out \<and> duration r = None)) records)
      = filter (\<lambda>r. duration r \<noteq> None) (filter (\<lambda>r. rtype r = Out) records)"
    by (induction records) auto
  show ?thesis
    unfolding statsDailyMinutes_def i o by (rule forEachOut_skip)
qed

lemma calculateStats_skip:
  "calculateStats (filter (\<lambda>r. \<not> (rtype r = Out \<and> duration r = None)) records)
     = calculateStats records"
proof (cases "filter (\<lambda>r. \<not> (rtype r = Out \<and> duration r = None)) records = []")
  case True
  have "statsDailyMinutes records = statsDailyMinutes []"
    using statsDailyMinutes_skip [of records] True by simp
  then have "statsDailyMinutes records = Some []"
    by (simp add: statsDailyMinutes_def)
  then show ?thesis
    using True by (simp add: calculateStats_def mkStats_def sumMinutes_def)
next
  case False
  then have "records \<noteq> []" by auto
  with False show ?thesis
    unfolding calculateStats_def statsDailyMinutes_skip
    by (simp only: length_0_conv if_False)
qed

lemma outStep_unmatched:
  assumes d: "duration outRecord = Some d"
    and un: "\<forall>r \<in> set inRecords. \<not> timestamp r < timestamp outRecord"
  shows "\<exists>dm'. outStep inRecords outRecord dm = Some dm' \<and>
           (\<forall>k. getOr0 dm' k =
                 getOr0 dm k + (if k = formatDateKey (timestamp outRecord) then d else 0))"
proof -
  have m: "matchingInRecord inRecords outRecord = None"
    using un by (simp add: matchingInRecord_None)
  show ?thesis
    by (simp add: outStep_def m d truthy_def orZero_def Let_def getOr0_map_set)
qed

subsection \<open>The period statistics\<close>

lemmas period_defs = calculatePeriodStats_def periodDailyMinutes_def dailyStats_def
  groupDays_def groupStats_def weekdayMinutes_def weekendMinutes_def isWeekend_def getDay_def
  map_has_def set_add_def

lemma period_fold_getOr0:
  "getOr0 (fold (\<lambda>record dm.
             if rtype record = Out \<and> truthy (duration record)
             then let day = formatDateKey (timestamp record)
                  in map_set dm day (getOr0 dm day + orZero (duration record))
             else dm) records dm0) day
   = getOr0 dm0 day
     + sum_list (map (\<lambda>r. orZero (duration r))
         (filter (\<lambda>r. rtype r = Out \<and> truthy (duration r)
                      \<and> formatDateKey (timestamp r) = day) records))"
  by (induction records arbitrary: dm0) (simp_all add: Let_def getOr0_map_set)

lemma period_fold_distinct:
  "distinct (map fst dm0) \<Longrightarrow>
   distinct (map fst (fold (\<lambda>record dm.
             if rtype record = Out \<and> truthy (duration record)
             then let day = formatDateKey (timestamp record)
                  in map_set dm day (getOr0 dm day + orZero (duration record))
             else dm) records dm0))"
  by (induction records arbitrary: dm0) (simp_all add: Let_def distinct_map_set)

lemma distinct_periodDailyMinutes: "distinct (map fst (periodDailyMinutes records))"
  unfolding periodDailyMinutes_def by (rule period_fold_distinct) simp

lemma weekendMinutes_filter:
  "distinct (map fst dm) \<Longrightarrow>
   weekendMinutes dm = filter (\<lambda>(k, v). isWeekend (parseISO k)) dm"
  unfolding weekendMinutes_def
  using fold_select [of dm "[]" "\<lambda>k. isWeekend (parseISO k)"] by simp

lemma weekdayMinutes_filter:
  "distinct (map fst dm) \<Longrightarrow>
   weekdayMinutes dm = filter (\<lambda>(k, v). \<not> isWeekend (parseISO k)) dm"
proof -
  assume d: "distinct (map fst dm)"
  have "(\<lambda>(dateKey, minutes) m.
           if isWeekend (parseISO dateKey) then m else map_set m dateKey minutes)
      = (\<lambda>(k, v) m. if \<not> isWeekend (parseISO k) then map_set m k v else m)"
    by (simp add: fun_eq_iff)
  then have "weekdayMinutes dm
      = fold (\<lambda>(k, v) m. if \<not> isWeekend (parseISO k) then map_set m k v else m) dm []"
    unfolding weekdayMinutes_def by (rule arg_cong)
  also have "\<dots> = [] @ filter (\<lambda>(k, v). \<not> isWeekend (parseISO k)) dm"
    by (rule fold_select [OF d]) simp
  finally show ?thesis by simp
qed

lemma length_partition:
  "length (filter (\<lambda>(k, v). \<not> P k) dm) + length (filter (\<lambda>(k, v). P k) dm) = length dm"
  by (induction dm) auto

lemma averageConsistent_mkStats: "averageConsistent (mkStats t days)"
  by (simp add: averageConsistent_def mkStats_def)

lemma dailyStats_fold_ok:
  "\<forall>s \<in> snd ` set d0. averageConsistent s \<Longrightarrow>
   \<forall>s \<in> snd ` set (fold (\<lambda>(dateKey, minutes) d.
             map_set d dateKey
               \<lparr>totalTime = minutes, averageTime = of_int minutes, daysPresent = 1\<rparr>)
       dailyMinutes d0). averageConsistent s"
proof (induction dailyMinutes arbitrary: d0)
  case Nil
  then show ?case by simp
next
  case (Cons p dailyMinutes)
  obtain k v where p: "p = (k, v)" by (cases p)
  have "averageConsistent \<lparr>totalTime = v, averageTime = of_int v, daysPresent = 1\<rparr>"
    by (simp add: averageConsistent_def)
  from Cons.IH [OF all_values_map_set [OF Cons.prems this]]
  show ?case by (simp add: p)
qed

lemma groupStats_fold_ok:
  "\<forall>s \<in> snd ` set st0. averageConsistent s \<Longrightarrow>
   \<forall>s \<in> snd ` set (fold (\<lambda>(key, t) stats.
                let days = (case map_get groupDaysMap key of
                              None \<Rightarrow> 0 | Some s \<Rightarrow> length s)
                in map_set stats key (mkStats t days))
          totals st0). averageConsistent s"
proof (induction totals arbitrary: st0)
  case Nil
  then show ?case by simp
next
  case (Cons p totals)
  obtain k t where p: "p = (k, t)" by (cases p)
  from Cons.IH [OF all_values_map_set [OF Cons.prems averageConsistent_mkStats]]
  show ?case by (simp add: p Let_def)
qed

lemma dailyStats_ok: "\<forall>s \<in> snd ` set (dailyStats dm). averageConsistent s"
  unfolding dailyStats_def by (rule dailyStats_fold_ok) simp

lemma groupStats_ok: "\<forall>s \<in> snd ` set (groupStats g). averageConsistent s"
proof (cases g)
  case (Pair totals gd)
  show ?thesis
    unfolding groupStats_def Pair prod.case by (rule groupStats_fold_ok) simp
qed

subsection \<open>The bounds of the split\<close>

lemma splitStayByDays_sum_bounds:
  assumes lt: "checkIn < checkOut"
  shows "\<exists>m. splitStayByDays checkIn checkOut = Some m \<and>
           sumMinutes m \<le> roundMinutes (checkOut - checkIn) \<and>
           roundMinutes (checkOut - checkIn) \<le> sumMinutes m + 2 \<and>
           (formatDateKey checkIn = formatDateKey checkOut \<longrightarrow>
              roundMinutes (checkOut - checkIn) \<le> sumMinutes m + 1)"
proof (cases "formatDateKey checkIn = formatDateKey checkOut")
  case True
  have s: "sumMinutes [(k, differenceInMinutes checkOut checkIn)]
      = (checkOut - checkIn) div 60000" for k :: int
    using lt by (simp add: sumMinutes_sum_list differenceInMinutes_def)
  show ?thesis
    unfolding splitStayByDays_same [OF True]
    using trunc_round_bounds [of "checkOut - checkIn"]
    by (simp add: s roundMinutes_def)
next
  case False
  from sum_multi [OF lt False] obtain m where
    m: "splitStayByDays checkIn checkOut = Some m"
    and s: "sumMinutes m = (86399999 - checkIn mod msPerDay) div 60000
        + 1440 * (formatDateKey checkOut - formatDateKey checkIn - 1)
        + (checkOut mod msPerDay) div 60000"
    by blast
  let ?a = "checkIn mod msPerDay" and ?b = "checkOut mod msPerDay"
  let ?k = "formatDateKey checkOut - formatDateKey checkIn"
  have a: "0 \<le> ?a" "?a < 86400000" and b: "0 \<le> ?b" "?b < 86400000"
    by (simp_all add: msPerDay_def)
  have "checkIn = formatDateKey checkIn * 86400000 + ?a"
    and "checkOut = formatDateKey checkOut * 86400000 + ?b"
    by (simp_all add: formatDateKey_def msPerDay_def)
  then have d: "checkOut - checkIn = ?k * 86400000 + ?b - ?a"
    by (simp add: algebra_simps)
  have r: "roundMinutes (checkOut - checkIn) = (?k * 86400000 + ?b - ?a + 30000) div 60000"
    unfolding roundMinutes_def using d by simp
  show ?thesis
    unfolding m r using round_bounds [OF a b, of ?k] False s
    by simp
qed

subsection \<open>The pairing of the specification\<close>

lemma latestCheckInBefore_matching:
  "latestCheckInBefore records (timestamp outRecord)
     = map_option timestamp
         (matchingInRecord (filter (\<lambda>record. rtype record = In) records) outRecord)"
proof (cases "matchingInRecord (filter (\<lambda>record. rtype record = In) records) outRecord")
  case None
  then have "\<forall>r \<in> set records. rtype r = In \<longrightarrow> \<not> timestamp r < timestamp outRecord"
    by (simp add: matchingInRecord_None)
  then have "filter (\<lambda>r. rtype r = In \<and> timestamp r < timestamp outRecord) records = []"
    by (auto simp: filter_empty_conv)
  with None show ?thesis by (simp add: latestCheckInBefore_def)
next
  case (Some m)
  let ?e = "map timestamp
              (filter (\<lambda>r. rtype r = In \<and> timestamp r < timestamp outRecord) records)"
  note mS = matchingInRecord_Some [OF Some]
  have mem: "timestamp m \<in> set ?e" using mS(1) mS(2) by auto
  then have ne: "?e \<noteq> []" by (cases ?e) simp_all
  have "Max (set ?e) = timestamp m"
  proof (rule Max_eqI)
    show "finite (set ?e)" by simp
    show "timestamp m \<in> set ?e" by (rule mem)
    fix y assume "y \<in> set ?e"
    then obtain r where "r \<in> set records" "rtype r = In" "timestamp r < timestamp outRecord"
      "y = timestamp r" by auto
    with mS(3) [of r] show "y \<le> timestamp m" by simp
  qed
  with ne Some show ?thesis by (simp add: latestCheckInBefore_def Let_def)
qed

lemma outStep_nearestPreceding:
  "outStep (filter (\<lambda>record. rtype record = In) records) outRecord dm
     = nearestPrecedingStep records outRecord dm"
  by (cases "matchingInRecord (filter (\<lambda>record. rtype record = In) records) outRecord")
    (simp_all add: outStep_def nearestPrecedingStep_def latestCheckInBefore_matching Let_def
      map_option_case split: option.splits)

lemma forEachOut_nearestPreceding:
  "forEachOut (filter (\<lambda>record. rtype record = In) records) outRecords dm
     = nearestPrecedingDaily records outRecords dm"
  by (induction outRecords arbitrary: dm)
    (simp_all add: outStep_nearestPreceding split: option.splits)

subsection \<open>The functions with exceptions on valid dates\<close>

lemma differenceInMinutes_shift:
  "differenceInMinutes (a + c) (b + c) = differenceInMinutes a b"
  by (simp add: differenceInMinutes_def)

lemma formatDateKeyE_Valid: "formatDateKeyE off (Valid t) = Inr (formatDateKey (t + off))"
  by (simp add: formatDateKeyE_def)

lemma formatDateKeyE_Invalid: "formatDateKeyE off InvalidDate = Inl RangeError"
  by (simp add: formatDateKeyE_def)

lemma timeClip_Valid: "- maxTime \<le> t \<Longrightarrow> t \<le> maxTime \<Longrightarrow> timeClip t = Valid t"
  by (simp add: timeClip_def)

lemma key_next: "formatDateKey (c + msPerDay + off) = formatDateKey (c + off) + 1"
  by (simp add: formatDateKey_def msPerDay_def)

lemma key_plus_days: "formatDateKey (c + n * msPerDay + off) = formatDateKey (c + off) + n"
  by (simp add: formatDateKey_def msPerDay_def)

lemma day_bounds:
  "formatDateKey t * msPerDay \<le> t" "t < (formatDateKey t + 1) * msPerDay"
proof -
  have eq: "t div msPerDay * msPerDay + t mod msPerDay = t" by (rule div_mult_mod_eq)
  have m: "0 \<le> t mod msPerDay" "t mod msPerDay < msPerDay"
    by (simp_all add: msPerDay_def)
  show "formatDateKey t * msPerDay \<le> t"
    unfolding formatDateKey_def using eq m by linarith
  have "(t div msPerDay + 1) * msPerDay = t div msPerDay * msPerDay + msPerDay"
    by (simp add: algebra_simps)
  then show "t < (formatDateKey t + 1) * msPerDay"
    unfolding formatDateKey_def using eq m by linarith
qed

lemma le_endOfDay: "t \<le> endOfDay t"
  using day_bounds(2) [of t] by (simp add: endOfDay_def formatDateKey_def msPerDay_def)

lemma startOfDay_le: "startOfDay t \<le> t"
  using day_bounds(1) [of t] by (simp add: startOfDay_def formatDateKey_def)

lemma splitLoopE_closed:
  assumes "formatDateKey (c + off) \<le> formatDateKey (out + off)"
    and "- maxTime \<le> c"
    and "c + (formatDateKey (out + off) - formatDateKey (c + off)) * msPerDay \<le> maxTime"
  shows "splitLoopE off result (Valid c) (Valid out) =
     Inr (fold (\<lambda>d m. map_set m d (Num 1440))
            [formatDateKey (c + off)..formatDateKey (out + off) - 1] result,
          Valid (c + (formatDateKey (out + off) - formatDateKey (c + off)) * msPerDay))"
  using assms
proof (induction "nat (formatDateKey (out + off) - formatDateKey (c + off))"
    arbitrary: result c)
  case 0
  then have eq: "formatDateKey (c + off) = formatDateKey (out + off)" by simp
  show ?case
    by (subst splitLoopE.simps) (simp add: formatDateKeyE_Valid eq)
next
  case (Suc n)
  let ?kc = "formatDateKey (c + off)" and ?ko = "formatDateKey (out + off)"
  from Suc.hyps(2) have lt: "?kc < ?ko" by simp
  have n: "n = nat (?ko - formatDateKey (c + msPerDay + off))"
    using Suc.hyps(2) by (simp add: key_next)
  have le: "formatDateKey (c + msPerDay + off) \<le> ?ko"
    using lt by (simp add: key_next)
  have lo: "- maxTime \<le> c + msPerDay" using Suc.prems(2) by (simp add: msPerDay_def)
  have same: "c + msPerDay + (?ko - formatDateKey (c + msPerDay + off)) * msPerDay
      = c + (?ko - ?kc) * msPerDay"
    unfolding key_next by (simp add: algebra_simps)
  have hi: "c + msPerDay + (?ko - formatDateKey (c + msPerDay + off)) * msPerDay \<le> maxTime"
    unfolding same by (rule Suc.prems(3))
  have "1 \<le> ?ko - ?kc" using lt by simp
  then have "msPerDay \<le> (?ko - ?kc) * msPerDay" by (simp add: msPerDay_def)
  then have hi1: "c + msPerDay \<le> maxTime" using Suc.prems(3) by linarith
  have next_day: "addDaysE (Valid c) 1 = Valid (c + msPerDay)"
    by (simp add: addDaysE_def timeClip_Valid [OF lo hi1])
  note IH = Suc.hyps(1) [OF n le lo hi]
  have same': "msPerDay + (?ko - (?kc + 1)) * msPerDay = (?ko - ?kc) * msPerDay"
    by (simp add: algebra_simps)
  have up: "[?kc..?ko - 1] = ?kc # [?kc + 1..?ko - 1]"
    using lt by (simp add: upto_rec1)
  show ?case
    using lt
    by (subst splitLoopE.simps)
      (simp add: formatDateKeyE_Valid next_day IH up key_next same')
qed

lemma numMap_append: "numMap (a @ b) = numMap a @ numMap b"
  by (simp add: numMap_def)

lemma keys_numMap: "fst ` set (numMap m) = fst ` set m"
  by (force simp: numMap_def)

lemma splitStayByDaysE_refines:
  assumes lo: "- maxTime \<le> i" and lt: "i < out" and hi: "out + msPerDay \<le> maxTime"
  shows "\<exists>m. splitStayByDays (i + off) (out + off) = Some m \<and>
           splitStayByDaysE off (Valid i) (Valid out) = Inr (numMap m)"
proof (cases "formatDateKey (i + off) = formatDateKey (out + off)")
  case True
  then show ?thesis
    using differenceInMinutes_shift [of out off i]
    by (simp add: splitStayByDays_same splitStayByDaysE_def formatDateKeyE_Valid
        differenceInMinutesE_def numMap_def)
next
  case False
  let ?ki = "formatDateKey (i + off)" and ?ko = "formatDateKey (out + off)"
  have lt': "i + off < out + off" using lt by simp
  have klt: "?ki < ?ko" using key_mono [of "i + off" "out + off"] lt False by simp
  \<comment> \<open>the end of the first day and the start of the last day are valid dates\<close>
  have e1: "i + off \<le> endOfDay (i + off)" by (rule le_endOfDay)
  have "endOfDay (i + off) < (?ki + 1) * msPerDay"
    by (simp add: endOfDay_def formatDateKey_def msPerDay_def)
  moreover have "(?ki + 1) * msPerDay \<le> ?ko * msPerDay"
    using klt by (simp add: msPerDay_def)
  moreover have so: "startOfDay (out + off) = ?ko * msPerDay"
    by (simp add: startOfDay_def formatDateKey_def)
  moreover have s2: "startOfDay (out + off) \<le> out + off" by (rule startOfDay_le)
  ultimately have e2: "endOfDay (i + off) < startOfDay (out + off)" by linarith
  have ev: "endOfDayE off (Valid i) = Valid (endOfDay (i + off) - off)"
    unfolding endOfDayE_def using e1 e2 s2 lo lt hi
    by (simp add: timeClip_def msPerDay_def)
  have sv: "startOfDayE off (Valid out) = Valid (startOfDay (out + off) - off)"
    unfolding startOfDayE_def using e1 e2 s2 lo lt hi
    by (simp add: timeClip_def msPerDay_def)
  have first: "differenceInMinutesE (Valid (endOfDay (i + off) - off)) (Valid i)
      = Num (of_int (differenceInMinutes (endOfDay (i + off)) (i + off)))"
    using differenceInMinutes_shift [of "endOfDay (i + off) - off" off i]
    by (simp add: differenceInMinutesE_def)
  have last: "differenceInMinutesE (Valid out) (Valid (startOfDay (out + off) - off))
      = Num (of_int (differenceInMinutes (out + off) (startOfDay (out + off))))"
    using differenceInMinutes_shift [of out off "startOfDay (out + off) - off"]
    by (simp add: differenceInMinutesE_def)
  \<comment> \<open>the day after the check-in, and the loop\<close>
  have i1: "i + msPerDay \<le> maxTime" using lt hi by simp
  have nd: "addDaysE (Valid i) 1 = Valid (i + msPerDay)"
    using lo i1 by (simp add: addDaysE_def timeClip_def msPerDay_def)
  have k1: "formatDateKey (i + msPerDay + off) = ?ki + 1" by (rule key_next)
  have le: "formatDateKey (i + msPerDay + off) \<le> ?ko" using klt by (simp add: k1)
  have lo1: "- maxTime \<le> i + msPerDay" using lo by (simp add: msPerDay_def)
  have fin: "i + msPerDay + (?ko - formatDateKey (i + msPerDay + off)) * msPerDay
      = i + (?ko - ?ki) * msPerDay"
    unfolding k1 by (simp add: algebra_simps)
  have "formatDateKey (i + (?ko - ?ki) * msPerDay + off) = ?ko"
    by (simp add: key_plus_days)
  then have "i + (?ko - ?ki) * msPerDay + off < (?ko + 1) * msPerDay"
    using day_bounds(2) [of "i + (?ko - ?ki) * msPerDay + off"] by simp
  then have "i + (?ko - ?ki) * msPerDay < out + msPerDay"
    using s2 so by (simp add: algebra_simps)
  then have hi1: "i + msPerDay + (?ko - formatDateKey (i + msPerDay + off)) * msPerDay
      \<le> maxTime"
    unfolding fin using hi by linarith
  have fin': "i + msPerDay + (?ko - (?ki + 1)) * msPerDay = i + (?ko - ?ki) * msPerDay"
    by (simp add: algebra_simps)
  note loop = splitLoopE_closed [OF le lo1 hi1, unfolded k1 fin']
  let ?f = "differenceInMinutes (endOfDay (i + off)) (i + off)"
  let ?l = "differenceInMinutes (out + off) (startOfDay (out + off))"
  have mid: "fold (\<lambda>d m. map_set m d (Num 1440)) [?ki + 1..?ko - 1] [(?ki, Num (of_int ?f))]
      = [(?ki, Num (of_int ?f))] @ map (\<lambda>d. (d, Num 1440)) [?ki + 1..?ko - 1]"
    by (rule fold_map_set_const) auto
  have fresh: "?ko \<notin> fst ` set (map (\<lambda>d. (d, Num 1440)) [?ki + 1..?ko - 1])"
    by (auto simp: image_iff)
  have E: "splitStayByDaysE off (Valid i) (Valid out) =
      Inr ((?ki, Num (of_int ?f)) # map (\<lambda>d. (d, Num 1440)) [?ki + 1..?ko - 1]
           @ [(?ko, Num (of_int ?l))])"
    using False
    by (simp add: splitStayByDaysE_def Let_def formatDateKeyE_Valid ev first nd loop mid
        key_plus_days sv last map_set_fresh [OF fresh])
  have "numMap ((?ki, ?f) # map (\<lambda>d. (d, 1440)) [?ki + 1..?ko - 1] @ [(?ko, ?l)])
      = (?ki, Num (of_int ?f)) # map (\<lambda>d. (d, Num 1440)) [?ki + 1..?ko - 1]
           @ [(?ko, Num (of_int ?l))]"
    by (simp add: numMap_def comp_def)
  with E splitStayByDays_multi [OF lt' False] show ?thesis by simp
qed

lemma matchingInRecordE_None:
  "matchingInRecordE inRecords outRecord = None \<longleftrightarrow>
     (\<forall>r \<in> set inRecords. \<not> isBeforeE (js_timestamp r) (js_timestamp outRecord))"
proof -
  let ?c = "filter (\<lambda>inRecord. isBeforeE (js_timestamp inRecord) (js_timestamp outRecord))
              inRecords"
  have "matchingInRecordE inRecords outRecord = None \<longleftrightarrow> sort_key getTimeKey ?c = []"
    unfolding matchingInRecordE_def by (simp split: list.splits)
  also have "\<dots> \<longleftrightarrow> set (sort_key getTimeKey ?c) = {}"
    by (simp only: set_empty)
  also have "\<dots> \<longleftrightarrow>
      (\<forall>r \<in> set inRecords. \<not> isBeforeE (js_timestamp r) (js_timestamp outRecord))"
    by (auto simp: filter_empty_conv)
  finally show ?thesis .
qed

lemma matchingInRecordE_Some:
  assumes "matchingInRecordE inRecords outRecord = Some m"
  shows "m \<in> set inRecords"
    and "isBeforeE (js_timestamp m) (js_timestamp outRecord)"
    and "\<And>r. r \<in> set inRecords \<Longrightarrow> isBeforeE (js_timestamp r) (js_timestamp outRecord) \<Longrightarrow>
           getTimeKey m \<le> getTimeKey r"
proof -
  let ?c = "filter (\<lambda>inRecord. isBeforeE (js_timestamp inRecord) (js_timestamp outRecord))
              inRecords"
  let ?s = "sort_key getTimeKey ?c"
  from assms obtain rest where s: "?s = m # rest"
    by (auto simp: matchingInRecordE_def split: list.splits)
  have "set ?s = set ?c" by simp
  with s have mem: "m \<in> set ?c" and sub: "set ?c = insert m (set rest)" by auto
  from mem show "m \<in> set inRecords"
    and "isBeforeE (js_timestamp m) (js_timestamp outRecord)"
    by simp_all
  have "sorted (map getTimeKey ?s)" by (rule sorted_sort_key)
  with s have le: "\<forall>r \<in> set rest. getTimeKey m \<le> getTimeKey r" by simp
  fix r assume "r \<in> set inRecords" "isBeforeE (js_timestamp r) (js_timestamp outRecord)"
  then have "r \<in> set ?c" by simp
  with sub le show "getTimeKey m \<le> getTimeKey r" by auto
qed

lemma isBeforeE_Valid: "isBeforeE (Valid a) (Valid b) = (a < b)"
  by (simp add: isBeforeE_def)

lemma isBeforeE_cases:
  "isBeforeE a b \<Longrightarrow> \<exists>x y. a = Valid x \<and> b = Valid y \<and> x < y"
  by (cases a; cases b) (simp_all add: isBeforeE_def)

lemma timestamp_localRecord:
  "js_timestamp r = Valid t \<Longrightarrow> timestamp (localRecord off r) = t + off"
  by (simp add: localRecord_def)

lemma matching_refines:
  assumes ins: "\<forall>r \<in> set inRecords. \<exists>t. js_timestamp r = Valid t"
    and out: "js_timestamp outRecord = Valid tout"
  shows "(matchingInRecordE inRecords outRecord = None \<and>
          matchingInRecord (map (localRecord off) inRecords) (localRecord off outRecord) = None)
       \<or> (\<exists>m m' t. matchingInRecordE inRecords outRecord = Some m \<and>
             matchingInRecord (map (localRecord off) inRecords) (localRecord off outRecord)
               = Some m' \<and>
             m \<in> set inRecords \<and> js_timestamp m = Valid t \<and> t < tout \<and>
             timestamp m' = t + off)"
proof -
  let ?L = "localRecord off"
  have before: "timestamp (?L r) < timestamp (?L outRecord)
      \<longleftrightarrow> isBeforeE (js_timestamp r) (js_timestamp outRecord)" if "r \<in> set inRecords" for r
  proof -
    from ins that obtain t where "js_timestamp r = Valid t" by blast
    then show ?thesis by (simp add: out timestamp_localRecord isBeforeE_Valid)
  qed
  show ?thesis
  proof (cases "matchingInRecordE inRecords outRecord")
    case None
    then have "\<forall>r \<in> set inRecords. \<not> isBeforeE (js_timestamp r) (js_timestamp outRecord)"
      by (simp add: matchingInRecordE_None)
    then have "matchingInRecord (map ?L inRecords) (?L outRecord) = None"
      by (simp add: matchingInRecord_None before)
    with None show ?thesis by simp
  next
    case (Some m)
    note mE = matchingInRecordE_Some [OF Some]
    from ins mE(1) obtain t where t: "js_timestamp m = Valid t" by blast
    from mE(2) have lt: "t < tout" by (simp add: t out isBeforeE_Valid)
    have "\<exists>r \<in> set (map ?L inRecords). timestamp r < timestamp (?L outRecord)"
      using mE(1) mE(2) before by auto
    then have "matchingInRecord (map ?L inRecords) (?L outRecord) \<noteq> None"
      by (simp only: matchingInRecord_None) blast
    then obtain m' where m': "matchingInRecord (map ?L inRecords) (?L outRecord) = Some m'"
      by blast
    note mS = matchingInRecord_Some [OF m']
    from mS(1) obtain r where r: "r \<in> set inRecords" "m' = ?L r" by auto
    from ins r(1) obtain tr where tr: "js_timestamp r = Valid tr" by blast
    have rb: "isBeforeE (js_timestamp r) (js_timestamp outRecord)"
      using mS(2) before [OF r(1)] r(2) by simp
    from mE(3) [OF r(1) rb] have "tr \<le> t" by (simp add: getTimeKey_def t tr)
    moreover have "timestamp (?L m) \<le> timestamp m'"
      using mS(3) [of "?L m"] mE(1) mE(2) before [OF mE(1)] by simp
    then have "t \<le> tr" by (simp add: r(2) timestamp_localRecord t tr)
    ultimately have "timestamp m' = t + off" by (simp add: r(2) timestamp_localRecord tr)
    with Some m' mE(1) t lt show ?thesis by blast
  qed
qed

lemma map_of_numMap: "map_of (numMap m) k = map_option (\<lambda>v. Num (of_int v)) (map_of m k)"
  unfolding numMap_def by (induction m) auto

lemma numGetOr0_numMap: "numGetOr0 (numMap m) k = Num (of_int (getOr0 m k))"
  by (simp add: numGetOr0_def getOr0_def map_get_def map_of_numMap split: option.splits)

lemma map_set_numMap: "map_set (numMap m) k (Num (of_int v)) = numMap (map_set m k v)"
  unfolding numMap_def by (induction m) auto

lemma map_set_numMap_add:
  "map_set (numMap m) k (Num (of_int a + of_int b)) = numMap (map_set m k (a + b))"
  using map_set_numMap [of m k "a + b"] by simp

lemma numAdd_Num: "numAdd (Num a) (Num b) = Num (a + b)"
  by (simp add: numAdd_def)

lemma accumulateE_numMap: "accumulateE (numMap dm) (numMap sp) = numMap (accumulate dm sp)"
proof -
  have "fold (\<lambda>(day, minutes) dm. map_set dm day (numAdd (numGetOr0 dm day) minutes))
          (numMap sp) (numMap dm)
      = numMap (fold (\<lambda>(day, minutes) dm. map_set dm day (getOr0 dm day + minutes)) sp dm)"
  proof (induction sp arbitrary: dm)
    case Nil
    then show ?case by (simp add: numMap_def)
  next
    case (Cons p sp)
    obtain k v where p: "p = (k, v)" by (cases p)
    have "numMap (p # sp) = (k, Num (of_int v)) # numMap sp" by (simp add: numMap_def p)
    then show ?case
      by (simp add: p numGetOr0_numMap numAdd_Num map_set_numMap_add Cons.IH)
  qed
  then show ?thesis by (simp add: accumulateE_def accumulate_def)
qed

lemma sumMinutesE_numMap: "sumMinutesE (numMap m) = Num (of_int (sumMinutes m))"
proof -
  have "fold (\<lambda>(day, minutes) t. numAdd t minutes) (numMap m) (Num (of_int t0))
      = Num (of_int (fold (\<lambda>(day, minutes) t. t + minutes) m t0))" for t0
  proof (induction m arbitrary: t0)
    case Nil
    then show ?case by (simp add: numMap_def)
  next
    case (Cons p m)
    obtain k v where p: "p = (k, v)" by (cases p)
    have "numMap (p # m) = (k, Num (of_int v)) # numMap m" by (simp add: numMap_def p)
    moreover have "numAdd (Num (of_int t0)) (Num (of_int v)) = Num (of_int (t0 + v))"
      by (simp add: numAdd_Num)
    ultimately show ?case using Cons.IH [of "t0 + v"] by (simp add: p)
  qed
  from this [of 0] show ?thesis by (simp add: sumMinutesE_def sumMinutes_def)
qed

lemma mkStatsE_numStats: "mkStatsE (Num (of_int t)) n = numStats (mkStats t n)"
  by (simp add: mkStatsE_def mkStats_def numStats_def numDiv_def)

lemma wellInside_Valid:
  "wellInside off d \<Longrightarrow> \<exists>t. d = Valid t \<and> - maxTime \<le> t \<and> t + msPerDay \<le> maxTime"
  by (cases d) (simp_all add: wellInside_def)

lemma outStepE_refines:
  assumes ins: "\<forall>r \<in> set inRecords. wellInside off (js_timestamp r)"
    and out: "wellInside off (js_timestamp outRecord)"
  shows "\<exists>dm'. outStep (map (localRecord off) inRecords) (localRecord off outRecord) dm
                 = Some dm' \<and>
               outStepE off inRecords outRecord (numMap dm) = Inr (numMap dm')"
proof (cases "truthy (js_duration outRecord)")
  case False
  then show ?thesis by (simp add: outStep_def outStepE_def localRecord_def)
next
  case True
  let ?L = "localRecord off"
  from wellInside_Valid [OF out] obtain tout where
    tout: "js_timestamp outRecord = Valid tout" and hi: "tout + msPerDay \<le> maxTime"
    by blast
  have insV: "\<forall>r \<in> set inRecords. \<exists>t. js_timestamp r = Valid t"
    using ins wellInside_Valid by blast
  have d: "duration (?L outRecord) = js_duration outRecord"
    and ts: "timestamp (?L outRecord) = tout + off"
    by (simp_all add: localRecord_def tout)
  from matching_refines [OF insV tout, of off]
  show ?thesis
  proof (elim disjE conjE exE)
    assume n: "matchingInRecordE inRecords outRecord = None"
      and n': "matchingInRecord (map ?L inRecords) (?L outRecord) = None"
    show ?thesis
      using True
      by (simp add: outStep_def outStepE_def n n' d ts tout formatDateKeyE_Valid Let_def
          numGetOr0_numMap numAdd_Num map_set_numMap_add)
  next
    fix m m' t
    assume s: "matchingInRecordE inRecords outRecord = Some m"
      and s': "matchingInRecord (map ?L inRecords) (?L outRecord) = Some m'"
      and mem: "m \<in> set inRecords" and t: "js_timestamp m = Valid t"
      and lt: "t < tout" and t': "timestamp m' = t + off"
    from ins mem wellInside_Valid have lo: "- maxTime \<le> t" by (fastforce simp: t)
    from splitStayByDaysE_refines [OF lo lt hi, of off] obtain sp where
      sp: "splitStayByDays (t + off) (tout + off) = Some sp"
      and spE: "splitStayByDaysE off (Valid t) (Valid tout) = Inr (numMap sp)"
      by blast
    show ?thesis
      using True
      by (simp add: outStep_def outStepE_def s s' d ts t t' tout sp spE accumulateE_numMap)
  qed
qed

lemma forEachOutE_refines:
  assumes ins: "\<forall>r \<in> set inRecords. wellInside off (js_timestamp r)"
    and outs: "\<forall>r \<in> set outRecords. wellInside off (js_timestamp r)"
  shows "\<exists>dm'. forEachOut (map (localRecord off) inRecords) (map (localRecord off) outRecords) dm
                 = Some dm' \<and>
               forEachOutE off inRecords outRecords (numMap dm) = Inr (numMap dm')"
  using outs
proof (induction outRecords arbitrary: dm)
  case Nil
  then show ?case by simp
next
  case (Cons outRecord rest)
  from Cons.prems have o: "wellInside off (js_timestamp outRecord)"
    and r: "\<forall>r \<in> set rest. wellInside off (js_timestamp r)" by simp_all
  from outStepE_refines [OF ins o, of dm] obtain dm1 where
    "outStep (map (localRecord off) inRecords) (localRecord off outRecord) dm = Some dm1"
    "outStepE off inRecords outRecord (numMap dm) = Inr (numMap dm1)"
    by blast
  with Cons.IH [OF r, of dm1] show ?case by simp
qed

lemma filter_type_local:
  "filter (\<lambda>record. rtype record = ty) (map (localRecord off) records)
     = map (localRecord off) (filter (\<lambda>record. js_type record = ty) records)"
  by (induction records) (simp_all add: localRecord_def)

lemma statsDailyMinutesE_refines:
  assumes "\<forall>r \<in> set records. wellInside off (js_timestamp r)"
  shows "\<exists>dm. statsDailyMinutes (map (localRecord off) records) = Some dm \<and>
              statsDailyMinutesE off records = Inr (numMap dm)"
proof -
  have i: "\<forall>r \<in> set (filter (\<lambda>record. js_type record = In) records).
      wellInside off (js_timestamp r)"
    and o: "\<forall>r \<in> set (filter (\<lambda>record. js_type record = Out) records).
      wellInside off (js_timestamp r)"
    using assms by simp_all
  from forEachOutE_refines [OF i o, of "[]"] show ?thesis
    by (simp add: statsDailyMinutes_def statsDailyMinutesE_def filter_type_local numMap_def)
qed

lemma length_numMap: "length (numMap m) = length m"
  by (simp add: numMap_def)

lemma calculateStatsE_refines:
  assumes "\<forall>r \<in> set records. wellInside off (js_timestamp r)"
  shows "\<exists>s. calculateStats (map (localRecord off) records) = Some s \<and>
             calculateStatsE off records = Inr (numStats s)"
proof (cases "records = []")
  case True
  then show ?thesis by (simp add: calculateStats_def calculateStatsE_def numStats_def)
next
  case False
  from statsDailyMinutesE_refines [OF assms] obtain dm where
    "statsDailyMinutes (map (localRecord off) records) = Some dm"
    "statsDailyMinutesE off records = Inr (numMap dm)"
    by blast
  with False show ?thesis
    by (simp add: calculateStats_def calculateStatsE_def sumMinutesE_numMap
        mkStatsE_numStats length_numMap)
qed

lemma periodLoopE_refines:
  assumes "\<forall>r \<in> set records. \<exists>t. js_timestamp r = Valid t"
  shows "periodLoopE off records dm =
     Inr (fold (\<lambda>record dm.
             if rtype record = Out \<and> truthy (duration record)
             then let day = formatDateKey (timestamp record)
                  in map_set dm day (getOr0 dm day + orZero (duration record))
             else dm) (map (localRecord off) records) dm)"
  using assms
proof (induction records arbitrary: dm)
  case Nil
  then show ?case by simp
next
  case (Cons r records)
  from Cons.prems obtain t where t: "js_timestamp r = Valid t" by auto
  from Cons.prems have rest: "\<forall>r \<in> set records. \<exists>t. js_timestamp r = Valid t" by simp
  show ?case
    by (simp add: Cons.IH [OF rest] t formatDateKeyE_Valid localRecord_def Let_def)
qed

lemma calculatePeriodStatsE_refines:
  assumes "\<forall>r \<in> set records. \<exists>t. js_timestamp r = Valid t"
  shows "calculatePeriodStatsE off formatWeekKey formatMonthKey records startDate endDate =
     Inr (calculatePeriodStats formatWeekKey formatMonthKey
            (map (localRecord off) records) startDate' endDate')"
  by (simp add: calculatePeriodStatsE_def calculatePeriodStats_def periodDailyMinutes_def
      periodLoopE_refines [OF assms] Let_def)

lemma periodLoopE_Invalid:
  assumes "r \<in> set records" "js_type r = Out" "truthy (js_duration r)"
    "js_timestamp r = InvalidDate"
  shows "periodLoopE off records dm = Inl RangeError"
  using assms
proof (induction records arbitrary: dm)
  case Nil
  then show ?case by simp
next
  case (Cons a records)
  show ?case
  proof (cases "a = r")
    case True
    with Cons.prems show ?thesis by (simp add: formatDateKeyE_Invalid)
  next
    case False
    with Cons.prems have "r \<in> set records" by simp
    from Cons.IH [OF this Cons.prems(2-4)] show ?thesis
      by (cases "js_timestamp a") (simp_all add: formatDateKeyE_def)
  qed
qed

lemmas js_defs = calculateStatsE_def statsDailyMinutesE_def outStepE_def
  matchingInRecordE_def isBeforeE_def getTimeKey_def splitStayByDaysE_def splitLoopE.simps
  formatDateKeyE_def endOfDayE_def startOfDayE_def addDaysE_def timeClip_def maxTime_def
  differenceInMinutesE_def accumulateE_def numGetOr0_def numAdd_def numDiv_def
  sumMinutesE_def mkStatsE_def calculatePeriodStatsE_def

section \<open>The claims\<close>

subsection \<open>C1: the day mapping of calculatePeriodStats\<close>

text \<open>
  C1 says that the day mapping built by \<open>calculatePeriodStats\<close> gives every day the sum
  of the stay intervals clipped to that day, so that a stay crossing midnight is spread
  over the days it spans. The function does something else, and says so in its comment
  (it only totals the durations of the check-outs by day): the minutes of a day are the
  sum of the durations of the check-outs with a non-zero duration whose timestamp falls
  on that day. A stay crossing midnight counts wholly for the day of the check-out.
\<close>

theorem periodDailyMinutes_by_checkout_day:
  "getOr0 (periodDailyMinutes records) day =
     sum_list (map (\<lambda>r. orZero (duration r))
       (filter (\<lambda>r. rtype r = Out \<and> truthy (duration r)
                    \<and> formatDateKey (timestamp r) = day) records))"
  unfolding periodDailyMinutes_def by (simp add: period_fold_getOr0 getOr0_Nil)

text \<open>
  The input against C1 as worded: a check-in at 23:00 of day 0 and a check-out at 01:00
  of day 1 with the duration 120. The clipped intervals give 60 minutes to each day;
  the mapping gives nothing to day 0 and 120 minutes to day 1.
\<close>

theorem periodDailyMinutes_clipped_counterexample:
  "getOr0 (periodDailyMinutes
      [\<lparr>rid = ''r1'', memberId = ''m'', rtype = In, timestamp = 82800000, duration = None\<rparr>,
       \<lparr>rid = ''r2'', memberId = ''m'', rtype = Out, timestamp = 90000000, duration = Some 120\<rparr>]) 0 = 0
   \<and> clippedDailyMinutes
      [\<lparr>rid = ''r1'', memberId = ''m'', rtype = In, timestamp = 82800000, duration = None\<rparr>,
       \<lparr>rid = ''r2'', memberId = ''m'', rtype = Out, timestamp = 90000000, duration = Some 120\<rparr>] 0 = 60
   \<and> getOr0 (periodDailyMinutes
      [\<lparr>rid = ''r1'', memberId = ''m'', rtype = In, timestamp = 82800000, duration = None\<rparr>,
       \<lparr>rid = ''r2'', memberId = ''m'', rtype = Out, timestamp = 90000000, duration = Some 120\<rparr>]) 1 = 120
   \<and> clippedDailyMinutes
      [\<lparr>rid = ''r1'', memberId = ''m'', rtype = In, timestamp = 82800000, duration = None\<rparr>,
       \<lparr>rid = ''r2'', memberId = ''m'', rtype = Out, timestamp = 90000000, duration = Some 120\<rparr>] 1 = 60"
  by (simp add: periodDailyMinutes_def clippedDailyMinutes_def stayIntervals_def
      matchingInRecord_def overlapMinutes_def getOr0_def map_get_def truthy_def orZero_def
      date_defs)

subsection \<open>C2: the split of a stay over three days\<close>

text \<open>
  C2 says that a stay from 23:00 of day \<open>D\<close> to 01:00 of day \<open>D + 2\<close> is split into
  60, 1440 and 60 minutes. The code measures the first day up to \<open>endOfDay\<close>, which is
  23:59:59.999 and not the midnight that follows, and \<open>differenceInMinutes\<close> truncates:
  the first day receives 59 minutes, for every day \<open>D\<close>.
\<close>

theorem splitStayByDays_first_day_59:
  "splitStayByDays (D * msPerDay + 82800000) ((D + 2) * msPerDay + 3600000)
     = Some [(D, 59), (D + 1, 1440), (D + 2, 60)]"
proof -
  let ?i = "D * msPerDay + 82800000" and ?o = "(D + 2) * msPerDay + 3600000"
  have ki: "formatDateKey ?i = D" and ko: "formatDateKey ?o = D + 2"
    by (simp_all add: key_of_day)
  have lt: "?i < ?o" by (simp add: msPerDay_def algebra_simps)
  have ne: "formatDateKey ?i \<noteq> formatDateKey ?o" by (simp add: ki ko)
  have first: "differenceInMinutes (endOfDay ?i) ?i = 59"
    by (simp add: diff_first) (simp add: msPerDay_def)
  have last: "differenceInMinutes ?o (startOfDay ?o) = 60"
    by (simp add: diff_last) (simp add: msPerDay_def)
  have mid: "[D + 1..D + 2 - 1] = [D + 1]" by (simp add: upto_rec1)
  show ?thesis
    unfolding splitStayByDays_multi [OF lt ne] ki ko first last mid by simp
qed

subsection \<open>C3: conservation of the minutes\<close>

text \<open>
  C3 says that for \<open>checkIn < checkOut\<close> the sum of the minutes of
  \<open>splitStayByDays\<close> is the rounded number of elapsed minutes within one minute. Every
  part is truncated to whole minutes, so what holds is this. In a zone with a constant
  offset, for two valid instants \<open>checkIn < checkOut\<close> that are not before 0001-01-01
  and at least 24 hours before the largest \<open>Date\<close>, the split returns, its sum never
  exceeds the rounded elapsed minutes, and it is at most 2 minutes below them (at most 1
  minute when both instants are on the same day).
\<close>

theorem splitStayByDaysE_conservation:
  assumes "wellInside off (Valid checkIn)" and "wellInside off (Valid checkOut)"
    and "checkIn < checkOut"
  shows "\<exists>m s. splitStayByDaysE off (Valid checkIn) (Valid checkOut) = Inr m \<and>
           sumMinutesE m = Num (of_int s) \<and>
           s \<le> roundMinutes (checkOut - checkIn) \<and>
           roundMinutes (checkOut - checkIn) \<le> s + 2 \<and>
           (formatDateKey (checkIn + off) = formatDateKey (checkOut + off) \<longrightarrow>
              roundMinutes (checkOut - checkIn) \<le> s + 1)"
proof -
  from wellInside_Valid [OF assms(1)] have lo: "- maxTime \<le> checkIn" by simp
  from wellInside_Valid [OF assms(2)] have hi: "checkOut + msPerDay \<le> maxTime" by simp
  from splitStayByDaysE_refines [OF lo assms(3) hi, of off] obtain m where
    m: "splitStayByDays (checkIn + off) (checkOut + off) = Some m"
    and mE: "splitStayByDaysE off (Valid checkIn) (Valid checkOut) = Inr (numMap m)"
    by blast
  have "checkIn + off < checkOut + off" using assms(3) by simp
  from splitStayByDays_sum_bounds [OF this] m
  have "sumMinutes m \<le> roundMinutes (checkOut - checkIn)"
    and "roundMinutes (checkOut - checkIn) \<le> sumMinutes m + 2"
    and "formatDateKey (checkIn + off) = formatDateKey (checkOut + off) \<longrightarrow>
           roundMinutes (checkOut - checkIn) \<le> sumMinutes m + 1"
    by simp_all
  with mE sumMinutesE_numMap [of m] show ?thesis by blast
qed

theorem splitStayByDaysE_conservation_witness:
  "wellInside 0 (Valid 82800001) \<and> wellInside 0 (Valid 90030001)
   \<and> (82800001::int) < 90030001
   \<and> (\<exists>m s. splitStayByDaysE 0 (Valid 82800001) (Valid 90030001) = Inr m \<and>
           sumMinutesE m = Num (of_int s) \<and>
           s \<le> roundMinutes (90030001 - 82800001) \<and>
           roundMinutes (90030001 - 82800001) \<le> s + 2)"
proof -
  have h: "wellInside 0 (Valid 82800001)" "wellInside 0 (Valid 90030001)"
    "(82800001::int) < 90030001"
    by (simp_all add: wellInside_def maxTime_def msPerDay_def firstDay_def)
  from splitStayByDaysE_conservation [OF h] h show ?thesis by blast
qed

text \<open>
  The input against C3 as worded: from 23:00:00.001 of day 0 to 01:00:30.001 of day 1,
  which are 120.5 minutes, rounded to 121. The split gives 59 and 60 minutes, 119 in all.
\<close>

theorem splitStayByDaysE_conservation_counterexample:
  "(82800001::int) < 90030001
   \<and> map_option sumMinutes (splitStayByDays 82800001 90030001) = Some 119
   \<and> roundMinutes (90030001 - 82800001) = 121
   \<and> splitStayByDaysE 0 (Valid 82800001) (Valid 90030001) = Inr [(0, Num 59), (1, Num 60)]
   \<and> sumMinutesE [(0::int, Num 59), (1, Num 60)] = Num 119"
  by (simp add: splitStayByDays_def splitLoop.simps sumMinutes_def roundMinutes_def date_defs
      splitStayByDaysE_def splitLoopE.simps formatDateKeyE_def endOfDayE_def startOfDayE_def
      addDaysE_def timeClip_def maxTime_def differenceInMinutesE_def sumMinutesE_def
      numAdd_def)

subsection \<open>C4: the check-in matched to a check-out\<close>

text \<open>
  C4: \<open>calculateStats\<close> pairs every check-out with the check-in of the latest timestamp
  among those strictly before it, chosen from the whole list of records for each
  check-out on its own: the day mapping and the result of \<open>calculateStats\<close> are those
  of the pairing worded in the specification, in which no check-in is used up. The
  record found by the sort of the code is a check-in of the list, strictly before the
  check-out and not before any other such check-in; there is none exactly when no
  check-in is strictly before the check-out.
\<close>

theorem calculateStats_nearest_preceding:
  "statsDailyMinutes records
     = nearestPrecedingDaily records (filter (\<lambda>record. rtype record = Out) records) []
   \<and> calculateStats records
     = (if records = [] then Some \<lparr>totalTime = 0, averageTime = 0, daysPresent = 0\<rparr>
        else map_option (\<lambda>dm. mkStats (sumMinutes dm) (length dm))
               (nearestPrecedingDaily records
                  (filter (\<lambda>record. rtype record = Out) records) []))
   \<and> (case matchingInRecord (filter (\<lambda>record. rtype record = In) records) outRecord of
         None \<Rightarrow>
           latestCheckInBefore records (timestamp outRecord) = None \<and>
           (\<forall>r \<in> set records. rtype r = In \<longrightarrow> \<not> timestamp r < timestamp outRecord)
       | Some m \<Rightarrow>
           latestCheckInBefore records (timestamp outRecord) = Some (timestamp m) \<and>
           m \<in> set records \<and> rtype m = In \<and> timestamp m < timestamp outRecord \<and>
           (\<forall>r \<in> set records.
              rtype r = In \<and> timestamp r < timestamp outRecord \<longrightarrow>
              timestamp r \<le> timestamp m))"
proof -
  let ?ins = "filter (\<lambda>record. rtype record = In) records"
  have a: "statsDailyMinutes records
     = nearestPrecedingDaily records (filter (\<lambda>record. rtype record = Out) records) []"
    by (simp add: statsDailyMinutes_def forEachOut_nearestPreceding)
  have b: "calculateStats records
     = (if records = [] then Some \<lparr>totalTime = 0, averageTime = 0, daysPresent = 0\<rparr>
        else map_option (\<lambda>dm. mkStats (sumMinutes dm) (length dm))
               (nearestPrecedingDaily records
                  (filter (\<lambda>record. rtype record = Out) records) []))"
    by (simp add: calculateStats_def a map_option_case split: option.splits)
  have c: "case matchingInRecord ?ins outRecord of
         None \<Rightarrow>
           latestCheckInBefore records (timestamp outRecord) = None \<and>
           (\<forall>r \<in> set records. rtype r = In \<longrightarrow> \<not> timestamp r < timestamp outRecord)
       | Some m \<Rightarrow>
           latestCheckInBefore records (timestamp outRecord) = Some (timestamp m) \<and>
           m \<in> set records \<and> rtype m = In \<and> timestamp m < timestamp outRecord \<and>
           (\<forall>r \<in> set records.
              rtype r = In \<and> timestamp r < timestamp outRecord \<longrightarrow>
              timestamp r \<le> timestamp m)"
  proof (cases "matchingInRecord ?ins outRecord")
    case None
    then show ?thesis
      using matchingInRecord_None [of ?ins outRecord]
      by (simp add: latestCheckInBefore_matching)
  next
    case (Some m)
    from matchingInRecord_Some [OF Some] Some show ?thesis
      by (simp add: latestCheckInBefore_matching)
  qed
  from a b c show ?thesis by blast
qed

text \<open>Two check-ins precede the check-out at 300000 and a third one follows it: the
  match is the one at 180000, to which the check-out at 240000 is matched as well, and
  both stays are counted.\<close>

theorem calculateStats_nearest_preceding_witness:
  "calculateStats
     [\<lparr>rid = ''a'', memberId = ''m'', rtype = In, timestamp = 60000, duration = None\<rparr>,
      \<lparr>rid = ''b'', memberId = ''m'', rtype = In, timestamp = 180000, duration = None\<rparr>,
      \<lparr>rid = ''c'', memberId = ''m'', rtype = Out, timestamp = 240000, duration = Some 1\<rparr>,
      \<lparr>rid = ''d'', memberId = ''m'', rtype = In, timestamp = 360000, duration = None\<rparr>,
      \<lparr>rid = ''e'', memberId = ''m'', rtype = Out, timestamp = 300000, duration = Some 2\<rparr>]
   = Some \<lparr>totalTime = 3, averageTime = 3, daysPresent = 1\<rparr>
   \<and> latestCheckInBefore
     [\<lparr>rid = ''a'', memberId = ''m'', rtype = In, timestamp = 60000, duration = None\<rparr>,
      \<lparr>rid = ''b'', memberId = ''m'', rtype = In, timestamp = 180000, duration = None\<rparr>,
      \<lparr>rid = ''c'', memberId = ''m'', rtype = Out, timestamp = 240000, duration = Some 1\<rparr>,
      \<lparr>rid = ''d'', memberId = ''m'', rtype = In, timestamp = 360000, duration = None\<rparr>,
      \<lparr>rid = ''e'', memberId = ''m'', rtype = Out, timestamp = 300000, duration = Some 2\<rparr>]
     300000 = Some 180000
   \<and> matchingInRecord
     (filter (\<lambda>record. rtype record = In)
        [\<lparr>rid = ''a'', memberId = ''m'', rtype = In, timestamp = 60000, duration = None\<rparr>,
         \<lparr>rid = ''b'', memberId = ''m'', rtype = In, timestamp = 180000, duration = None\<rparr>,
         \<lparr>rid = ''c'', memberId = ''m'', rtype = Out, timestamp = 240000, duration = Some 1\<rparr>,
         \<lparr>rid = ''d'', memberId = ''m'', rtype = In, timestamp = 360000, duration = None\<rparr>,
         \<lparr>rid = ''e'', memberId = ''m'', rtype = Out, timestamp = 300000, duration = Some 2\<rparr>])
     \<lparr>rid = ''e'', memberId = ''m'', rtype = Out, timestamp = 300000, duration = Some 2\<rparr>
   = Some \<lparr>rid = ''b'', memberId = ''m'', rtype = In, timestamp = 180000, duration = None\<rparr>"
proof -
  let ?rs = "[\<lparr>rid = ''a'', memberId = ''m'', rtype = In, timestamp = 60000, duration = None\<rparr>,
      \<lparr>rid = ''b'', memberId = ''m'', rtype = In, timestamp = 180000, duration = None\<rparr>,
      \<lparr>rid = ''c'', memberId = ''m'', rtype = Out, timestamp = 240000, duration = Some 1\<rparr>,
      \<lparr>rid = ''d'', memberId = ''m'', rtype = In, timestamp = 360000, duration = None\<rparr>,
      \<lparr>rid = ''e'', memberId = ''m'', rtype = Out, timestamp = 300000, duration = Some (2::int)\<rparr>]"
  let ?e = "\<lparr>rid = ''e'', memberId = ''m'', rtype = Out, timestamp = 300000, duration = Some (2::int)\<rparr>"
  have m: "matchingInRecord (filter (\<lambda>record. rtype record = In) ?rs) ?e
      = Some \<lparr>rid = ''b'', memberId = ''m'', rtype = In, timestamp = 180000, duration = None\<rparr>"
    by (simp add: matchingInRecord_def isBefore_def)
  have d: "nearestPrecedingDaily ?rs (filter (\<lambda>record. rtype record = Out) ?rs) []
      = Some [(0, 3)]"
    by (simp add: nearestPrecedingStep_def latestCheckInBefore_def truthy_def
        splitStayByDays_def accumulate_def getOr0_def map_get_def date_defs)
  from calculateStats_nearest_preceding [of ?rs ?e] m d show ?thesis
    by (simp add: mkStats_def sumMinutes_def)
qed

subsection \<open>C5: check-outs without a duration, check-outs without a check-in\<close>

text \<open>
  C5: in \<open>calculateStats\<close> a check-out without a duration contributes nothing, whether
  or not a check-in precedes it: removing these records changes neither the day mapping
  nor the result. A check-out with the duration \<open>d\<close> and no check-in strictly before it
  adds \<open>d\<close> minutes to its own day and nothing to any other day. The single check-out
  with the duration 30 gives the mapping of its day to 30, the total 30 and one day
  present.
\<close>

theorem checkout_duration_attribution:
  "calculateStats (filter (\<lambda>r. \<not> (rtype r = Out \<and> duration r = None)) records)
     = calculateStats records
   \<and> statsDailyMinutes (filter (\<lambda>r. \<not> (rtype r = Out \<and> duration r = None)) records)
     = statsDailyMinutes records
   \<and> (duration outRecord = Some d \<and>
        (\<forall>r \<in> set inRecords. \<not> timestamp r < timestamp outRecord) \<longrightarrow>
        (\<exists>dm'. outStep inRecords outRecord dm = Some dm' \<and>
           (\<forall>k. getOr0 dm' k =
                 getOr0 dm k + (if k = formatDateKey (timestamp outRecord) then d else 0))))
   \<and> statsDailyMinutes
        [\<lparr>rid = i, memberId = mem, rtype = Out, timestamp = t, duration = Some 30\<rparr>]
       = Some [(formatDateKey t, 30)]
   \<and> calculateStats
        [\<lparr>rid = i, memberId = mem, rtype = Out, timestamp = t, duration = Some 30\<rparr>]
       = Some \<lparr>totalTime = 30, averageTime = 30, daysPresent = 1\<rparr>"
proof -
  have ex: "statsDailyMinutes
        [\<lparr>rid = i, memberId = mem, rtype = Out, timestamp = t, duration = Some 30\<rparr>]
       = Some [(formatDateKey t, 30)]"
    by (simp add: statsDailyMinutes_def outStep_def matchingInRecord_def truthy_def
        orZero_def getOr0_def map_get_def)
  have ex2: "calculateStats
        [\<lparr>rid = i, memberId = mem, rtype = Out, timestamp = t, duration = Some 30\<rparr>]
       = Some \<lparr>totalTime = 30, averageTime = 30, daysPresent = 1\<rparr>"
    by (simp add: calculateStats_def ex sumMinutes_def mkStats_def)
  show ?thesis
    using calculateStats_skip [of records] statsDailyMinutes_skip [of records]
      outStep_unmatched [of outRecord d inRecords dm] ex ex2
    by blast
qed

theorem checkout_duration_attribution_witness:
  "duration \<lparr>rid = ''o'', memberId = ''m'', rtype = Out, timestamp = 36000000,
             duration = Some 30\<rparr> = Some 30
   \<and> \<not> timestamp \<lparr>rid = ''i'', memberId = ''m'', rtype = In, timestamp = 40000000,
             duration = None\<rparr>
        < timestamp \<lparr>rid = ''o'', memberId = ''m'', rtype = Out, timestamp = 36000000,
             duration = Some 30\<rparr>
   \<and> (\<exists>dm'. outStep
          [\<lparr>rid = ''i'', memberId = ''m'', rtype = In, timestamp = 40000000, duration = None\<rparr>]
          \<lparr>rid = ''o'', memberId = ''m'', rtype = Out, timestamp = 36000000, duration = Some 30\<rparr>
          [(0, 15)] = Some dm' \<and> getOr0 dm' 0 = 45 \<and> getOr0 dm' 1 = 0)"
proof -
  let ?o = "\<lparr>rid = ''o'', memberId = ''m'', rtype = Out, timestamp = 36000000,
             duration = Some 30\<rparr>"
  let ?i = "\<lparr>rid = ''i'', memberId = ''m'', rtype = In, timestamp = 40000000,
             duration = None\<rparr>"
  have h: "duration ?o = Some 30 \<and> (\<forall>r \<in> set [?i]. \<not> timestamp r < timestamp ?o)"
    by simp
  from checkout_duration_attribution
    [where outRecord = ?o and d = 30 and inRecords = "[?i]" and dm = "[(0, 15)]"] h
  obtain dm' where s: "outStep [?i] ?o [(0, 15)] = Some dm'"
    and k: "\<And>k. getOr0 dm' k =
           getOr0 [(0, 15)] k + (if k = formatDateKey (timestamp ?o) then 30 else 0)"
    by blast
  have "getOr0 dm' 0 = 45" and "getOr0 dm' 1 = 0"
    using k [of 0] k [of 1]
    by (simp_all add: getOr0_def map_get_def formatDateKey_def msPerDay_def)
  with s show ?thesis by simp
qed

subsection \<open>C6: the functions return\<close>

text \<open>
  C6 says that the three functions return for every input. \<open>format\<close> raises
  \<open>RangeError\<close> on an Invalid Date, and the day after the check-in can leave the range
  of \<open>Date\<close>, so what holds is this. In a zone with a constant offset, for every list of
  records (of any type, with or without a duration) whose timestamps are valid dates,
  not before 0001-01-01 and at least 24 hours before the largest \<open>Date\<close>,
  \<open>calculateStats\<close> and \<open>calculatePeriodStats\<close> return without raising, with the values
  computed on valid dates; the loop over the intermediate days ends, and
  \<open>splitStayByDays\<close> returns, for every pair it is called on, which is a check-in
  strictly before the check-out. \<open>compareMembersStats\<close> returns for every input one
  entry per member, sorted by descending total.
\<close>

theorem stats_functions_return:
  assumes "\<forall>r \<in> set records. wellInside off (js_timestamp r)"
  shows "(\<exists>s. calculateStats (map (localRecord off) records) = Some s \<and>
             calculateStatsE off records = Inr (numStats s))
   \<and> calculatePeriodStatsE off formatWeekKey formatMonthKey records startDate endDate
       = Inr (calculatePeriodStats formatWeekKey formatMonthKey
                (map (localRecord off) records) startDate' endDate')
   \<and> (\<forall>outRecord \<in> set records. \<forall>m.
         matchingInRecordE (filter (\<lambda>record. js_type record = In) records) outRecord
           = Some m \<longrightarrow>
         isBeforeE (js_timestamp m) (js_timestamp outRecord) \<and>
         (\<exists>dailySplits.
            splitStayByDaysE off (js_timestamp m) (js_timestamp outRecord) = Inr dailySplits))
   \<and> length (compareMembersStats membersStats) = length membersStats
   \<and> set (compareMembersStats membersStats)
       = (\<lambda>(memberId, stats). (memberId, totalTime stats)) ` set membersStats
   \<and> sorted (map (\<lambda>(name, t). - t) (compareMembersStats membersStats))"
proof -
  have valid: "\<forall>r \<in> set records. \<exists>t. js_timestamp r = Valid t"
    using assms wellInside_Valid by blast
  have loop: "isBeforeE (js_timestamp m) (js_timestamp outRecord) \<and>
         (\<exists>dailySplits.
            splitStayByDaysE off (js_timestamp m) (js_timestamp outRecord) = Inr dailySplits)"
    if o: "outRecord \<in> set records"
      and m: "matchingInRecordE (filter (\<lambda>record. js_type record = In) records) outRecord
                = Some m"
    for outRecord m
  proof -
    note mE = matchingInRecordE_Some [OF m]
    from isBeforeE_cases [OF mE(2)] obtain x y where
      x: "js_timestamp m = Valid x" and y: "js_timestamp outRecord = Valid y" and lt: "x < y"
      by blast
    from mE(1) assms wellInside_Valid [of off "js_timestamp m"] x have lo: "- maxTime \<le> x"
      by auto
    from o assms wellInside_Valid [of off "js_timestamp outRecord"] y
    have hi: "y + msPerDay \<le> maxTime" by auto
    from splitStayByDaysE_refines [OF lo lt hi, of off] mE(2) show ?thesis
      by (auto simp: x y)
  qed
  have cmp: "length (compareMembersStats membersStats) = length membersStats"
    "set (compareMembersStats membersStats)
       = (\<lambda>(memberId, stats). (memberId, totalTime stats)) ` set membersStats"
    "sorted (map (\<lambda>(name, t). - t) (compareMembersStats membersStats))"
    by (simp_all add: compareMembersStats_def sorted_sort_key)
  from calculateStatsE_refines [OF assms]
    calculatePeriodStatsE_refines [OF valid, of off formatWeekKey formatMonthKey
      startDate endDate startDate' endDate']
    loop cmp
  show ?thesis by blast
qed

theorem stats_functions_return_witness:
  "wellInside 32400000 (Valid 50400000) \<and> wellInside 32400000 (Valid 144000000)
   \<and> calculateStatsE 32400000
        [\<lparr>js_id = ''i'', js_memberId = ''m'', js_type = In,
          js_timestamp = Valid 50400000, js_duration = None\<rparr>,
         \<lparr>js_id = ''o'', js_memberId = ''m'', js_type = Out,
          js_timestamp = Valid 144000000, js_duration = Some 1560\<rparr>]
       = Inr \<lparr>totalTimeE = Num 1559, averageTimeE = Num (1559 / 3), daysPresentE = 3\<rparr>
   \<and> (\<exists>p. calculatePeriodStatsE 32400000 (\<lambda>date. date div 604800000)
               (\<lambda>date. date div 2592000000)
        [\<lparr>js_id = ''i'', js_memberId = ''m'', js_type = In,
          js_timestamp = Valid 50400000, js_duration = None\<rparr>,
         \<lparr>js_id = ''o'', js_memberId = ''m'', js_type = Out,
          js_timestamp = Valid 144000000, js_duration = Some 1560\<rparr>]
        InvalidDate InvalidDate = Inr p)"
proof -
  let ?rs = "[\<lparr>js_id = ''i'', js_memberId = ''m'', js_type = In,
          js_timestamp = Valid 50400000, js_duration = None\<rparr>,
         \<lparr>js_id = ''o'', js_memberId = ''m'', js_type = Out,
          js_timestamp = Valid 144000000, js_duration = Some (1560::int)\<rparr>]"
  have w: "wellInside 32400000 (Valid 50400000)" "wellInside 32400000 (Valid 144000000)"
    by (simp_all add: wellInside_def maxTime_def msPerDay_def firstDay_def)
  then have h: "\<forall>r \<in> set ?rs. wellInside 32400000 (js_timestamp r)" by simp
  have s: "calculateStats (map (localRecord 32400000) ?rs)
      = Some \<lparr>totalTime = 1559, averageTime = 1559 / 3, daysPresent = 3\<rparr>"
    by (simp add: localRecord_def calculateStats_def statsDailyMinutes_def outStep_def
        matchingInRecord_def truthy_def splitStayByDays_def splitLoop.simps accumulate_def
        getOr0_def map_get_def sumMinutes_def mkStats_def date_defs)
  from stats_functions_return [OF h, of "\<lambda>date. date div 604800000"
      "\<lambda>date. date div 2592000000" InvalidDate InvalidDate 0 0 "[]"] s w
  show ?thesis by (auto simp: numStats_def)
qed

text \<open>
  The inputs against C6 as worded: a check-out with the duration 30 whose timestamp is
  an Invalid Date makes \<open>calculateStats\<close> and \<open>calculatePeriodStats\<close> raise; so does,
  for \<open>calculateStats\<close>, a check-in one hour before the largest \<open>Date\<close> followed by a
  check-out at the largest \<open>Date\<close>, on the next day.
\<close>

theorem stats_functions_return_counterexample:
  "calculateStatsE 0
     [\<lparr>js_id = ''o'', js_memberId = ''m'', js_type = Out,
       js_timestamp = InvalidDate, js_duration = Some 30\<rparr>] = Inl RangeError
   \<and> calculatePeriodStatsE 0 (\<lambda>date. date div 604800000) (\<lambda>date. date div 2592000000)
     [\<lparr>js_id = ''o'', js_memberId = ''m'', js_type = Out,
       js_timestamp = InvalidDate, js_duration = Some 30\<rparr>] InvalidDate InvalidDate
     = Inl RangeError
   \<and> calculateStatsE 0
     [\<lparr>js_id = ''i'', js_memberId = ''m'', js_type = In,
       js_timestamp = Valid 8639999996400000, js_duration = None\<rparr>,
      \<lparr>js_id = ''o'', js_memberId = ''m'', js_type = Out,
       js_timestamp = Valid 8640000000000000, js_duration = Some 60\<rparr>] = Inl RangeError"
  by (simp add: js_defs truthy_def date_defs)

subsection \<open>C7: the average of every Stats value\<close>

text \<open>
  C7: the result of \<open>calculateStats\<close>, and every entry of \<open>daily\<close>, \<open>weekly\<close> and
  \<open>monthly\<close> and the \<open>weekday\<close>, \<open>weekend\<close> and \<open>total\<close> records of
  \<open>calculatePeriodStats\<close>, have an average equal to the total divided by the days
  present, and equal to 0 when no day is present.
\<close>

theorem stats_average_consistent:
  "(\<exists>s. calculateStats records = Some s \<and> averageConsistent s)
   \<and> (\<forall>s \<in> snd ` set (daily (calculatePeriodStats formatWeekKey formatMonthKey
                                 records startDate endDate)). averageConsistent s)
   \<and> (\<forall>s \<in> snd ` set (weekly (calculatePeriodStats formatWeekKey formatMonthKey
                                 records startDate endDate)). averageConsistent s)
   \<and> (\<forall>s \<in> snd ` set (monthly (calculatePeriodStats formatWeekKey formatMonthKey
                                 records startDate endDate)). averageConsistent s)
   \<and> averageConsistent (weekday (calculatePeriodStats formatWeekKey formatMonthKey
                                 records startDate endDate))
   \<and> averageConsistent (weekend (calculatePeriodStats formatWeekKey formatMonthKey
                                 records startDate endDate))
   \<and> averageConsistent (total (calculatePeriodStats formatWeekKey formatMonthKey
                                 records startDate endDate))"
proof -
  obtain dm where dm: "statsDailyMinutes records = Some dm"
    using statsDailyMinutes_Some by blast
  have "calculateStats records = Some \<lparr>totalTime = 0, averageTime = 0, daysPresent = 0\<rparr>
      \<or> calculateStats records = Some (mkStats (sumMinutes dm) (length dm))"
    by (simp add: calculateStats_def dm)
  then have c: "\<exists>s. calculateStats records = Some s \<and> averageConsistent s"
    using averageConsistent_mkStats by (auto simp: averageConsistent_def)
  show ?thesis
    using c dailyStats_ok [of "periodDailyMinutes records"]
      groupStats_ok [of "groupDays formatWeekKey (periodDailyMinutes records)"]
      groupStats_ok [of "groupDays formatMonthKey (periodDailyMinutes records)"]
      averageConsistent_mkStats
    by (simp add: calculatePeriodStats_def Let_def)
qed

theorem stats_average_consistent_witness:
  "(1, \<lparr>totalTime = 150, averageTime = 75, daysPresent = 2\<rparr>)
     \<in> set (weekly (calculatePeriodStats (\<lambda>date. date div 604800000) (\<lambda>date. date div 2592000000)
          [\<lparr>rid = ''a'', memberId = ''m'', rtype = Out, timestamp = 700000000, duration = Some 100\<rparr>,
           \<lparr>rid = ''b'', memberId = ''m'', rtype = Out, timestamp = 800000000, duration = Some 50\<rparr>]
          0 0))
   \<and> averageConsistent \<lparr>totalTime = 150, averageTime = 75, daysPresent = 2\<rparr>"
proof -
  let ?p = "calculatePeriodStats (\<lambda>date. date div 604800000) (\<lambda>date. date div 2592000000)
          [\<lparr>rid = ''a'', memberId = ''m'', rtype = Out, timestamp = 700000000, duration = Some 100\<rparr>,
           \<lparr>rid = ''b'', memberId = ''m'', rtype = Out, timestamp = 800000000, duration = Some 50\<rparr>]
          0 0"
  have w: "weekly ?p = [(1, \<lparr>totalTime = 150, averageTime = 75, daysPresent = 2\<rparr>)]"
    by (simp add: period_defs Let_def mkStats_def getOr0_def map_get_def truthy_def
        orZero_def date_defs)
  have "\<forall>s \<in> snd ` set (weekly ?p). averageConsistent s"
    using stats_average_consistent
      [of "[\<lparr>rid = ''a'', memberId = ''m'', rtype = Out, timestamp = 700000000, duration = Some 100\<rparr>,
           \<lparr>rid = ''b'', memberId = ''m'', rtype = Out, timestamp = 800000000, duration = Some 50\<rparr>]"
          "\<lambda>date. date div 604800000" "\<lambda>date. date div 2592000000" 0 0]
    by blast
  with w show ?thesis by simp
qed

subsection \<open>C8: weekdays and weekends\<close>

text \<open>
  C8: in \<open>calculatePeriodStats\<close> the weekday map holds exactly the days of the day
  mapping that are not on a weekend and the weekend map exactly those that are; every
  day key is in one of them and none in both, and the days present of \<open>weekday\<close> and
  \<open>weekend\<close> add up to the days present of \<open>total\<close>.
\<close>

theorem weekday_weekend_partition:
  "weekdayMinutes (periodDailyMinutes records)
     = filter (\<lambda>(dateKey, minutes). \<not> isWeekend (parseISO dateKey)) (periodDailyMinutes records)
   \<and> weekendMinutes (periodDailyMinutes records)
     = filter (\<lambda>(dateKey, minutes). isWeekend (parseISO dateKey)) (periodDailyMinutes records)
   \<and> distinct (map fst (periodDailyMinutes records))
   \<and> fst ` set (weekdayMinutes (periodDailyMinutes records))
       \<union> fst ` set (weekendMinutes (periodDailyMinutes records))
     = fst ` set (periodDailyMinutes records)
   \<and> fst ` set (weekdayMinutes (periodDailyMinutes records))
       \<inter> fst ` set (weekendMinutes (periodDailyMinutes records)) = {}
   \<and> daysPresent (weekday (calculatePeriodStats formatWeekKey formatMonthKey
                              records startDate endDate))
     = length (weekdayMinutes (periodDailyMinutes records))
   \<and> daysPresent (weekend (calculatePeriodStats formatWeekKey formatMonthKey
                              records startDate endDate))
     = length (weekendMinutes (periodDailyMinutes records))
   \<and> daysPresent (total (calculatePeriodStats formatWeekKey formatMonthKey
                            records startDate endDate))
     = length (periodDailyMinutes records)
   \<and> daysPresent (weekday (calculatePeriodStats formatWeekKey formatMonthKey
                              records startDate endDate))
       + daysPresent (weekend (calculatePeriodStats formatWeekKey formatMonthKey
                                records startDate endDate))
     = daysPresent (total (calculatePeriodStats formatWeekKey formatMonthKey
                             records startDate endDate))"
proof -
  let ?dm = "periodDailyMinutes records"
  have d: "distinct (map fst ?dm)" by (rule distinct_periodDailyMinutes)
  note wd = weekdayMinutes_filter [OF d] and we = weekendMinutes_filter [OF d]
  have u: "fst ` set (weekdayMinutes ?dm) \<union> fst ` set (weekendMinutes ?dm) = fst ` set ?dm"
    unfolding wd we by force
  have i: "fst ` set (weekdayMinutes ?dm) \<inter> fst ` set (weekendMinutes ?dm) = {}"
    unfolding wd we by force
  have l: "length (weekdayMinutes ?dm) + length (weekendMinutes ?dm) = length ?dm"
    unfolding wd we by (rule length_partition)
  have p: "daysPresent (weekday (calculatePeriodStats formatWeekKey formatMonthKey
                              records startDate endDate)) = length (weekdayMinutes ?dm)"
    "daysPresent (weekend (calculatePeriodStats formatWeekKey formatMonthKey
                              records startDate endDate)) = length (weekendMinutes ?dm)"
    "daysPresent (total (calculatePeriodStats formatWeekKey formatMonthKey
                              records startDate endDate)) = length ?dm"
    by (simp_all add: calculatePeriodStats_def Let_def mkStats_def)
  show ?thesis
    unfolding p using wd we d u i l by simp
qed

subsection \<open>C9: the empty list\<close>

text \<open>
  C9: \<open>calculateStats\<close> of the empty list returns the zero summary by its first
  branch, before any map is built, and \<open>calculatePeriodStats\<close> of the empty list
  returns empty \<open>daily\<close>, \<open>weekly\<close> and \<open>monthly\<close> maps and zero summaries.
\<close>

theorem empty_input_stats:
  "calculateStats [] = Some \<lparr>totalTime = 0, averageTime = 0, daysPresent = 0\<rparr>
   \<and> calculatePeriodStats formatWeekKey formatMonthKey [] startDate endDate
     = \<lparr>daily = [], weekly = [], monthly = [],
        weekday = \<lparr>totalTime = 0, averageTime = 0, daysPresent = 0\<rparr>,
        weekend = \<lparr>totalTime = 0, averageTime = 0, daysPresent = 0\<rparr>,
        total = \<lparr>totalTime = 0, averageTime = 0, daysPresent = 0\<rparr>\<rparr>"
  by (simp add: calculateStats_def period_defs mkStats_def sumMinutes_def)

subsection \<open>C10: the dates of the period are not read\<close>

text \<open>
  C10: the result of \<open>calculatePeriodStats\<close> does not depend on \<open>startDate\<close> and
  \<open>endDate\<close>: two calls on the same records with any two pairs of dates return the
  same value.
\<close>

theorem calculatePeriodStats_ignores_dates:
  "calculatePeriodStats formatWeekKey formatMonthKey records startDate endDate
     = calculatePeriodStats formatWeekKey formatMonthKey records startDate' endDate'"
  by (simp add: calculatePeriodStats_def)

end
